theory Spec2Isabelle
  imports Main "HOL-Library.AList"
begin

section \<open>Shared runtime model\<close>

text \<open>
  The two coordinators are the classes \<open>ChatRoomDurableObject\<close>
  (\<open>backend/src/lib/chat-room-durable-object.ts\<close>) and \<open>PresenceDurableObject\<close>
  (\<open>backend/src/lib/feed-service.ts\<close>, second document). Their private fields become the
  fields of a record that every method takes and returns. A JavaScript \<open>Map\<close> iterates in
  insertion order, so a \<open>Map\<close> is an association list: \<open>map_of\<close> is \<open>get\<close>,
  \<open>AList.update\<close> is \<open>set\<close> (value replaced in place, new key appended) and
  \<open>AList.delete\<close> is \<open>delete\<close>. A \<open>Set<string>\<close> is a \<open>string set\<close>.

  The values the platform hands to the code are parameters of the model: the result of
  \<open>crypto.randomUUID()\<close>, of \<open>Date.now()\<close> (milliseconds, an \<open>int\<close>), and the
  timer id that \<open>setInterval\<close> returns.
\<close>

datatype ready_state = CONNECTING | OPEN | CLOSING | CLOSED

text \<open>A server-side \<open>WebSocket\<close>: its \<open>readyState\<close>, and whether \<open>ws.send\<close> raises.\<close>

record websocket =
  readyState :: ready_state
  send_throws :: bool

text \<open>
  The calls made on transports, in the order they are made. On the socket registered as
  \<open>c\<close>: \<open>Send c m\<close> is a \<open>ws.send(m)\<close> that returned, \<open>Throw c m\<close> a \<open>ws.send(m)\<close> that
  raised, \<open>Close c\<close> a \<open>ws.close()\<close>.
\<close>

datatype 'e io = Send string 'e | Throw string 'e | Close string

datatype error = UserIdNotFound | SendFailed

text \<open>What \<open>server.accept()\<close> leaves behind: an open socket.\<close>

definition accepted :: websocket where
  "accepted = \<lparr>readyState = OPEN, send_throws = False\<rparr>"

text \<open>
  An incoming \<open>Request\<close>: the method, \<open>new URL(request.url).pathname\<close>, the headers and the
  query parameter that the code reads, and the outcome of \<open>request.json()\<close> cast to the type
  the handler declares (\<open>None\<close> when parsing rejects).
\<close>

record 'b request =
  http_method :: string
  pathname :: string
  upgradeHeader :: "string option"
  xUserId :: "string option"
  cfAccessJwtClaims :: "string option"
  queryUserId :: "string option"
  json :: "'b option"

text \<open>The interfaces \<open>UserPresence\<close> and \<open>TypingIndicator\<close>.\<close>

datatype status = online | away | offline

record user_presence =
  presence_userId :: string
  status :: status
  lastSeenAt :: int
  deviceInfo :: "string option"
  currentChatId :: "string option"
  isTyping :: "bool option"
  typingInChatId :: "string option"

record typing_indicator =
  indicator_userId :: string
  indicator_chatId :: string
  indicator_timestamp :: int

text \<open>
  What a \<open>catch (error)\<close> of the router can receive: the rejection of \<open>c.req.json()\<close>, or
  an error that left a method of an object.
\<close>

datatype thrown = JsonRejected | Raised error

text \<open>
  A \<open>Response\<close>: the status and the body. The JSON bodies are the objects given to
  \<open>JSON.stringify\<close>: \<open>{success: true}\<close>, \<open>{status: "offline"}\<close>, a \<open>UserPresence\<close>, and
  the router's \<open>{success: false, error, timestamp}\<close>, where \<open>error\<close> is a literal
  (\<open>JsonFailure\<close>) or the \<open>message\<close> of the error that was caught (\<open>JsonThrown\<close>).
\<close>

datatype reply =
    Text string
  | JsonSuccess
  | JsonStatusOffline
  | JsonPresence user_presence
  | JsonFailure string int
  | JsonThrown thrown int
  | WebSocketClient string

record response =
  status_code :: nat
  body :: reply

definition ok :: "response \<Rightarrow> bool" where
  "ok r = (200 \<le> status_code r \<and> status_code r \<le> 299)"

text \<open>JavaScript truthiness of a nullable string: \<open>null\<close> and \<open>""\<close> are falsy.\<close>

definition truthy :: "string option \<Rightarrow> bool" where
  "truthy v = (case v of None \<Rightarrow> False | Some x \<Rightarrow> x \<noteq> [])"

text \<open>
  A value that \<open>JSON.parse\<close> returns, for the fields that the code types as \<open>any\<close>. A
  number is a double: \<open>Finite m e\<close> is \<open>m * 2^e\<close> (the two zeros are one value, \<open>m = 0\<close>:
  both are falsy), \<open>Infinite\<close> an infinity with its sign (the text \<open>1e999\<close> parses to one).
  \<open>truthy_json\<close> is what \<open>||\<close> and \<open>!\<close> test: \<open>null\<close>, \<open>false\<close>, zero and \<open>""\<close> are falsy,
  every array and object is truthy.
\<close>

datatype js_number = Finite int int | Infinite bool

datatype json =
    JNull
  | JBool bool
  | JNumber js_number
  | JString string
  | JArray "json list"
  | JObject "(string \<times> json) list"

fun truthy_json :: "json \<Rightarrow> bool" where
  "truthy_json JNull = False"
| "truthy_json (JBool b) = b"
| "truthy_json (JNumber (Finite m e)) = (m \<noteq> 0)"
| "truthy_json (JNumber (Infinite negative)) = True"
| "truthy_json (JString text) = (text \<noteq> [])"
| "truthy_json (JArray items) = True"
| "truthy_json (JObject members) = True"

text \<open>\<open>getUserIdFromRequest\<close> (the same in both classes); \<open>None\<close> is the thrown \<open>Error\<close>.\<close>

definition getUserIdFromRequest :: "'b request \<Rightarrow> string option" where
  "getUserIdFromRequest request =
     (let userId = (if truthy (xUserId request) then xUserId request
                    else cfAccessJwtClaims request)
      in if truthy userId then userId
         else if truthy (queryUserId request) then queryUserId request
         else None)"

text \<open>
  The first loop of \<open>broadcastMessage\<close> and of \<open>broadcastPresenceUpdate\<close> (the two bodies
  are the same text): one iteration on the entry \<open>[connectionId, ws]\<close>, with the trace and
  \<open>deadConnections\<close> as the accumulator.
\<close>

definition send_step ::
  "'e \<Rightarrow> string \<times> websocket \<Rightarrow> 'e io list \<times> string list \<Rightarrow> 'e io list \<times> string list" where
  "send_step messageStr entry acc =
     (case entry of (connectionId, ws) \<Rightarrow>
      case acc of (out, deadConnections) \<Rightarrow>
        if readyState ws = OPEN then
          (if send_throws ws
           then (out @ [Throw connectionId messageStr], deadConnections @ [connectionId])
           else (out @ [Send connectionId messageStr], deadConnections))
        else (out, deadConnections @ [connectionId]))"

definition sendToAll ::
  "'e \<Rightarrow> (string \<times> websocket) list \<Rightarrow> 'e io list \<Rightarrow> 'e io list \<times> string list" where
  "sendToAll messageStr conns out = fold (send_step messageStr) conns (out, [])"

text \<open>A connection the first loop delivers to: it reports open and its send returns.\<close>

definition healthy :: "websocket \<Rightarrow> bool" where
  "healthy ws = (readyState ws = OPEN \<and> \<not> send_throws ws)"

text \<open>
  What the first loop does to a registry \<open>conns\<close>, entry by entry: the sends it makes, and
  the ids it pushes on \<open>deadConnections\<close>.
\<close>

definition deliveries :: "'e \<Rightarrow> (string \<times> websocket) list \<Rightarrow> 'e io list" where
  "deliveries messageStr conns =
     map (\<lambda>(c, ws). if send_throws ws then Throw c messageStr else Send c messageStr)
       (filter (\<lambda>(c, ws). readyState ws = OPEN) conns)"

definition deadIds :: "(string \<times> websocket) list \<Rightarrow> string list" where
  "deadIds conns = map fst (filter (\<lambda>(c, ws). \<not> healthy ws) conns)"

text \<open>The frames that reached connection \<open>c\<close>, oldest first.\<close>

fun frames :: "string \<Rightarrow> 'e io list \<Rightarrow> 'e list" where
  "frames c [] = []"
| "frames c (Send c' m # rest) = (if c' = c then m # frames c rest else frames c rest)"
| "frames c (Throw c' m # rest) = frames c rest"
| "frames c (Close c' # rest) = frames c rest"

section \<open>ChatRoomDurableObject\<close>

datatype room_event =
    Message (msg_id: string) (msg_content: string) (msg_type: string)
            (msg_senderId: string) (msg_timestamp: int) (msg_metadata: json)
  | Typing string bool int
  | Presence string string int
  | Ping

record room =
  connections :: "(string \<times> websocket) list"
  userConnections :: "(string \<times> string set) list"
  typingUsers :: "string set"
  heartbeatIntervals :: "(string \<times> nat) list"
  wire :: "room_event io list"

text \<open>
  The request bodies, as the handlers cast them. \<open>metadata\<close> is declared \<open>any\<close>: \<open>None\<close> is
  a body without the property.
\<close>

record message_data =
  content :: string
  type :: string
  metadata :: "json option"

record typing_data =
  typingData_isTyping :: bool

record room_presence_data =
  room_presenceData_status :: string

text \<open>\<open>removeConnection\<close>, lines 302-306: \<open>ws.close()\<close> and \<open>connections.delete\<close>.\<close>

definition closeConnection :: "string \<Rightarrow> room \<Rightarrow> room" where
  "closeConnection connectionId s =
     (case map_of (connections s) connectionId of
        Some ws \<Rightarrow> s\<lparr>connections := AList.delete connectionId (connections s),
                     wire := wire s @ [Close connectionId]\<rparr>
      | None \<Rightarrow> s)"

text \<open>\<open>removeConnection\<close>, lines 309-313; \<open>if (interval)\<close> is false for the timer id 0.\<close>

definition clearHeartbeat :: "string \<Rightarrow> room \<Rightarrow> room" where
  "clearHeartbeat connectionId s =
     (case map_of (heartbeatIntervals s) connectionId of
        Some interval \<Rightarrow>
          if interval \<noteq> 0
          then s\<lparr>heartbeatIntervals := AList.delete connectionId (heartbeatIntervals s)\<rparr>
          else s
      | None \<Rightarrow> s)"

text \<open>
  \<open>broadcastMessage\<close> and \<open>removeConnection\<close> call each other: removing a user's last
  connection broadcasts a \<open>presence\<close> event, and a broadcast removes the connections it
  found dead. \<open>broadcastMessage\<close> contains no \<open>await\<close>, so the call in \<open>removeConnection\<close>
  runs to its end before \<open>removeConnection\<close> continues. \<open>removeDead\<close> is the second loop of
  \<open>broadcastMessage\<close>.
\<close>

function broadcastMessage :: "room_event \<Rightarrow> int \<Rightarrow> room \<Rightarrow> room"
  and removeDead :: "string list \<Rightarrow> int \<Rightarrow> room \<Rightarrow> room"
  and removeConnection :: "string \<Rightarrow> int \<Rightarrow> room \<Rightarrow> room"
where
  "broadcastMessage message now s =
     (case sendToAll message (connections s) (wire s) of
        (out, deadConnections) \<Rightarrow> removeDead deadConnections now (s\<lparr>wire := out\<rparr>))"
| "removeDead [] now s = s"
| "removeDead (connectionId # rest) now s =
     removeDead rest now (removeConnection connectionId now s)"
| "removeConnection connectionId now s =
     (let s' = clearHeartbeat connectionId (closeConnection connectionId s) in
      case find (\<lambda>(userId, connectionIds). connectionId \<in> connectionIds) (userConnections s') of
        None \<Rightarrow> s'
      | Some (userId, connectionIds) \<Rightarrow>
          if connectionIds - {connectionId} = {}
          then broadcastMessage (Presence userId ''offline'' now) now
                 (s'\<lparr>userConnections := AList.delete userId (userConnections s')\<rparr>)
          else s'\<lparr>userConnections :=
                    AList.update userId (connectionIds - {connectionId}) (userConnections s')\<rparr>)"
  by pat_completeness auto

lemma length_delete_less:
  "k \<in> fst ` set al \<Longrightarrow> length (AList.delete k al) < length al"
  unfolding AList.delete_eq by (auto intro!: length_filter_less)

lemma length_update_mem:
  "k \<in> fst ` set al \<Longrightarrow> length (AList.update k v al) = length al"
  by (induction al) auto

lemma find_owner_mem:
  "find (\<lambda>(userId, connectionIds). c \<in> connectionIds) ucs = Some (u, ids)
   \<Longrightarrow> u \<in> fst ` set ucs \<and> c \<in> ids \<and> (u, ids) \<in> set ucs"
  by (induction ucs) (auto split: if_splits)

lemma userConnections_detach [simp]:
  "userConnections (clearHeartbeat c (closeConnection c s)) = userConnections s"
  by (simp add: clearHeartbeat_def closeConnection_def split: option.splits)

lemma users_nonincreasing_partial:
  "broadcastMessage_removeDead_removeConnection_dom (Inl (message, now, s)) \<Longrightarrow>
     length (userConnections (broadcastMessage message now s)) \<le> length (userConnections s)"
  "broadcastMessage_removeDead_removeConnection_dom (Inr (Inl (dead, now, s))) \<Longrightarrow>
     length (userConnections (removeDead dead now s)) \<le> length (userConnections s)"
  "broadcastMessage_removeDead_removeConnection_dom (Inr (Inr (c, now, s))) \<Longrightarrow>
     length (userConnections (removeConnection c now s)) \<le> length (userConnections s)"
proof (induction rule: broadcastMessage_removeDead_removeConnection.pinduct)
  case (1 message now s)
  then show ?case
    by (auto simp: broadcastMessage.psimps split: prod.splits)
next
  case (2 now s)
  then show ?case by (simp add: removeDead.psimps)
next
  case (3 connectionId rest now s)
  then show ?case by (simp add: removeDead.psimps)
next
  case (4 connectionId now s)
  let ?s' = "clearHeartbeat connectionId (closeConnection connectionId s)"
  show ?case
  proof (cases "find (\<lambda>(userId, connectionIds). connectionId \<in> connectionIds)
                  (userConnections ?s')")
    case None
    then show ?thesis using 4(1) by (simp add: removeConnection.psimps)
  next
    case (Some a)
    obtain u ids where a: "a = (u, ids)" by (cases a)
    from Some a have f:
      "find (\<lambda>(userId, connectionIds). connectionId \<in> connectionIds) (userConnections s)
         = Some (u, ids)"
      by simp
    then have mem: "u \<in> fst ` set (userConnections s)" using find_owner_mem by fast
    show ?thesis
    proof (cases "ids - {connectionId} = {}")
      case True
      have "length (userConnections (broadcastMessage (Presence u ''offline'' now) now
                 (?s'\<lparr>userConnections := AList.delete u (userConnections ?s')\<rparr>)))
            \<le> length (AList.delete u (userConnections s))"
        using 4(2)[of ?s' "(u, ids)" u ids] Some a True by simp
      also have "\<dots> \<le> length (userConnections s)"
        using length_delete_less[OF mem] by simp
      finally show ?thesis using 4(1) f True by (simp add: removeConnection.psimps Let_def)
    next
      case False
      then show ?thesis
        using 4(1) f mem by (simp add: removeConnection.psimps Let_def length_update_mem)
    qed
  qed
qed

text \<open>
  Every nested broadcast starts after a user has been deleted from \<open>userConnections\<close>, and
  no call adds one: the number of users bounds the depth of the recursion.
\<close>

termination broadcastMessage
proof (relation
    "measures [\<lambda>x. case x of Inl (m, n, s) \<Rightarrow> length (userConnections s)
                          | Inr (Inl (d, n, s)) \<Rightarrow> length (userConnections s)
                          | Inr (Inr (c, n, s)) \<Rightarrow> length (userConnections s),
               \<lambda>x. case x of Inl _ \<Rightarrow> 2 | Inr (Inl _) \<Rightarrow> 1 | Inr (Inr _) \<Rightarrow> (0::nat),
               \<lambda>x. case x of Inr (Inl (d, n, s)) \<Rightarrow> length d | _ \<Rightarrow> 0]", goal_cases)
  case 1
  then show ?case by simp
next
  case (2 message now s x y)
  then show ?case by simp
next
  case (3 connectionId rest now s)
  then show ?case by simp
next
  case (4 connectionId rest now s)
  then show ?case using users_nonincreasing_partial(3)[OF 4] by auto
next
  case (5 connectionId now s x x2 xa y)
  then have "xa \<in> fst ` set (userConnections s)"
    using find_owner_mem[of connectionId "userConnections s" xa y] by simp
  from length_delete_less[OF this] 5 show ?case by simp
qed

declare broadcastMessage.simps [simp del] removeConnection.simps [simp del]

text \<open>
  The two halves of \<open>removeConnection\<close>: \<open>detach\<close> is the part before the loop over
  \<open>userConnections\<close>, \<open>owner\<close> the entry at which that loop stops.
\<close>

definition detach :: "string \<Rightarrow> room \<Rightarrow> room" where
  "detach c s = clearHeartbeat c (closeConnection c s)"

definition owner :: "string \<Rightarrow> room \<Rightarrow> (string \<times> string set) option" where
  "owner c s = find (\<lambda>(u, ids). c \<in> ids) (userConnections s)"

text \<open>
  The transport calls of the second loop: closing a dead connection, and the
  \<open>presence\<close> event with status \<open>offline\<close> that \<open>removeConnection\<close> broadcasts.
\<close>

fun prune_io :: "room_event io \<Rightarrow> bool" where
  "prune_io (Close c) = True"
| "prune_io (Send c (Presence u st t)) = (st = ''offline'')"
| "prune_io (Throw c (Presence u st t)) = (st = ''offline'')"
| "prune_io _ = False"

subsection \<open>Connection set-up and the request handlers\<close>

definition setupHeartbeat :: "string \<Rightarrow> nat \<Rightarrow> room \<Rightarrow> room" where
  "setupHeartbeat connectionId interval s =
     s\<lparr>heartbeatIntervals := AList.update connectionId interval (heartbeatIntervals s)\<rparr>"

text \<open>
  One firing of the timer that \<open>setupHeartbeat\<close> starts. The socket of the closure is the
  one registered under \<open>connectionId\<close>; once \<open>removeConnection\<close> has dropped it, it has
  been closed and no longer reports open. An exception of \<open>ws.send\<close> ends the callback.
\<close>

definition heartbeatTick :: "string \<Rightarrow> int \<Rightarrow> room \<Rightarrow> room" where
  "heartbeatTick connectionId now s =
     (case map_of (connections s) connectionId of
        Some ws \<Rightarrow>
          if readyState ws = OPEN
          then (if send_throws ws then s\<lparr>wire := wire s @ [Throw connectionId Ping]\<rparr>
                else s\<lparr>wire := wire s @ [Send connectionId Ping]\<rparr>)
          else removeConnection connectionId now s
      | None \<Rightarrow> removeConnection connectionId now s)"

text \<open>
  \<open>handleWebSocketUpgrade\<close>. \<open>getUserIdFromRequest\<close> throws before anything is stored, and
  the method has no \<open>try\<close>: the error leaves the method.
\<close>

definition handleWebSocketUpgrade ::
  "'b request \<Rightarrow> string \<Rightarrow> nat \<Rightarrow> room \<Rightarrow> (error + response) \<times> room" where
  "handleWebSocketUpgrade request connectionId interval s =
     (if upgradeHeader request \<noteq> Some ''websocket''
      then (Inr \<lparr>status_code = 400, body = Text ''Expected websocket''\<rparr>, s)
      else case getUserIdFromRequest request of
        None \<Rightarrow> (Inl UserIdNotFound, s)
      | Some userId \<Rightarrow>
          let s1 = s\<lparr>connections := AList.update connectionId accepted (connections s)\<rparr>;
              s2 = (if map_of (userConnections s1) userId = None
                    then s1\<lparr>userConnections := AList.update userId {} (userConnections s1)\<rparr>
                    else s1);
              s3 = (case map_of (userConnections s2) userId of
                      None \<Rightarrow> s2
                    | Some connectionIds \<Rightarrow>
                        s2\<lparr>userConnections :=
                             AList.update userId (insert connectionId connectionIds)
                               (userConnections s2)\<rparr>)
          in (Inr \<lparr>status_code = 101, body = WebSocketClient connectionId\<rparr>,
              setupHeartbeat connectionId interval s3))"

text \<open>\<open>messageData.metadata || {}\<close>: a falsy value is replaced by the empty object.\<close>

definition metadata_or_empty :: "json option \<Rightarrow> json" where
  "metadata_or_empty m =
     (case m of
        None \<Rightarrow> JObject []
      | Some v \<Rightarrow> if truthy_json v then v else JObject [])"

definition handleMessageRequest ::
  "message_data request \<Rightarrow> string \<Rightarrow> int \<Rightarrow> room \<Rightarrow> response \<times> room" where
  "handleMessageRequest request uuid now s =
     (if http_method request \<noteq> ''POST''
      then (\<lparr>status_code = 405, body = Text ''Method not allowed''\<rparr>, s)
      else case json request of
        None \<Rightarrow> (\<lparr>status_code = 500, body = Text ''Internal server error''\<rparr>, s)
      | Some messageData \<Rightarrow>
          (case getUserIdFromRequest request of
             None \<Rightarrow> (\<lparr>status_code = 500, body = Text ''Internal server error''\<rparr>, s)
           | Some userId \<Rightarrow>
               if content messageData = [] \<or> type messageData = []
               then (\<lparr>status_code = 400, body = Text ''Invalid message data''\<rparr>, s)
               else (\<lparr>status_code = 200, body = JsonSuccess\<rparr>,
                     broadcastMessage
                       (Message uuid (content messageData) (type messageData) userId now
                          (metadata_or_empty (metadata messageData)))
                       now s)))"

definition handleTypingRequest ::
  "typing_data request \<Rightarrow> int \<Rightarrow> room \<Rightarrow> response \<times> room" where
  "handleTypingRequest request now s =
     (if http_method request \<noteq> ''POST''
      then (\<lparr>status_code = 405, body = Text ''Method not allowed''\<rparr>, s)
      else case json request of
        None \<Rightarrow> (\<lparr>status_code = 500, body = Text ''Internal server error''\<rparr>, s)
      | Some typingData \<Rightarrow>
          (case getUserIdFromRequest request of
             None \<Rightarrow> (\<lparr>status_code = 500, body = Text ''Internal server error''\<rparr>, s)
           | Some userId \<Rightarrow>
               let s1 = (if typingData_isTyping typingData
                         then s\<lparr>typingUsers := insert userId (typingUsers s)\<rparr>
                         else s\<lparr>typingUsers := typingUsers s - {userId}\<rparr>)
               in (\<lparr>status_code = 200, body = JsonSuccess\<rparr>,
                   broadcastMessage (Typing userId (typingData_isTyping typingData) now)
                     now s1)))"

definition handlePresenceRequest ::
  "room_presence_data request \<Rightarrow> int \<Rightarrow> room \<Rightarrow> response \<times> room" where
  "handlePresenceRequest request now s =
     (if http_method request \<noteq> ''POST''
      then (\<lparr>status_code = 405, body = Text ''Method not allowed''\<rparr>, s)
      else case json request of
        None \<Rightarrow> (\<lparr>status_code = 500, body = Text ''Internal server error''\<rparr>, s)
      | Some presenceData \<Rightarrow>
          (case getUserIdFromRequest request of
             None \<Rightarrow> (\<lparr>status_code = 500, body = Text ''Internal server error''\<rparr>, s)
           | Some userId \<Rightarrow>
               (\<lparr>status_code = 200, body = JsonSuccess\<rparr>,
                broadcastMessage
                  (Presence userId (room_presenceData_status presenceData) now) now s)))"

text \<open>
  The \<open>message\<close> listener of \<open>handleWebSocketEvents\<close>, after \<open>JSON.parse\<close>: the cases of
  \<open>message.type\<close>, with \<open>handleClientMessage\<close> and \<open>handleTypingIndicator\<close>.
\<close>

datatype client_frame =
    Pong
  | ClientMessage message_data
  | ClientTyping bool
  | Unknown

definition handleClientMessage :: "message_data \<Rightarrow> string \<Rightarrow> string \<Rightarrow> int \<Rightarrow> room \<Rightarrow> room" where
  "handleClientMessage messageData userId uuid now s =
     broadcastMessage
       (Message uuid (content messageData)
          (if type messageData = [] then ''text'' else type messageData) userId now
          (metadata_or_empty (metadata messageData)))
       now s"

definition handleTypingIndicator :: "bool \<Rightarrow> string \<Rightarrow> int \<Rightarrow> room \<Rightarrow> room" where
  "handleTypingIndicator typing userId now s =
     broadcastMessage (Typing userId typing now) now
       (if typing then s\<lparr>typingUsers := insert userId (typingUsers s)\<rparr>
        else s\<lparr>typingUsers := typingUsers s - {userId}\<rparr>)"

definition onMessage :: "client_frame \<Rightarrow> string \<Rightarrow> string \<Rightarrow> int \<Rightarrow> room \<Rightarrow> room" where
  "onMessage frame userId uuid now s =
     (case frame of
        Pong \<Rightarrow> s
      | ClientMessage messageData \<Rightarrow> handleClientMessage messageData userId uuid now s
      | ClientTyping typing \<Rightarrow> handleTypingIndicator typing userId now s
      | Unknown \<Rightarrow> s)"

text \<open>The \<open>switch\<close> of \<open>fetch\<close> on \<open>url.pathname\<close>.\<close>

datatype room_handler =
    WebSocketUpgrade | MessageRequest | TypingRequest | PresenceRequest | NotFound

definition room_fetch :: "string \<Rightarrow> room_handler" where
  "room_fetch path =
     (if path = ''/websocket'' then WebSocketUpgrade
      else if path = ''/message'' then MessageRequest
      else if path = ''/typing'' then TypingRequest
      else if path = ''/presence'' then PresenceRequest
      else NotFound)"

text \<open>
  \<open>fetch\<close>. The handlers read the body of the request through the type they cast it to;
  \<open>view\<close> holds these casts for a request whose body has the type \<open>'b\<close>, and \<open>cast\<close> is
  the request read through one of them. At most one handler runs: \<open>uuid\<close> is the result
  of its \<open>crypto.randomUUID()\<close>, \<open>interval\<close> of its \<open>setInterval\<close> and \<open>now\<close> of its
  \<open>Date.now()\<close>. The error of \<open>handleWebSocketUpgrade\<close> leaves \<open>fetch\<close>.
\<close>

record 'b casts =
  as_message :: "'b \<Rightarrow> message_data"
  as_typing :: "'b \<Rightarrow> typing_data"
  as_presence :: "'b \<Rightarrow> room_presence_data"

definition cast :: "('a \<Rightarrow> 'b) \<Rightarrow> 'a request \<Rightarrow> 'b request" where
  "cast f request =
     \<lparr>http_method = http_method request, pathname = pathname request,
      upgradeHeader = upgradeHeader request, xUserId = xUserId request,
      cfAccessJwtClaims = cfAccessJwtClaims request, queryUserId = queryUserId request,
      json = map_option f (json request)\<rparr>"

definition fetch ::
  "'b casts \<Rightarrow> 'b request \<Rightarrow> string \<Rightarrow> nat \<Rightarrow> int \<Rightarrow> room \<Rightarrow> (error + response) \<times> room" where
  "fetch view request uuid interval now s =
     (case room_fetch (pathname request) of
        WebSocketUpgrade \<Rightarrow> handleWebSocketUpgrade request uuid interval s
      | MessageRequest \<Rightarrow>
          (case handleMessageRequest (cast (as_message view) request) uuid now s of
             (response, s') \<Rightarrow> (Inr response, s'))
      | TypingRequest \<Rightarrow>
          (case handleTypingRequest (cast (as_typing view) request) now s of
             (response, s') \<Rightarrow> (Inr response, s'))
      | PresenceRequest \<Rightarrow>
          (case handlePresenceRequest (cast (as_presence view) request) now s of
             (response, s') \<Rightarrow> (Inr response, s'))
      | NotFound \<Rightarrow> (Inr \<lparr>status_code = 404, body = Text ''Not Found''\<rparr>, s))"

text \<open>
  What can happen to a room between two reads of its state: the calls the platform makes
  into the object, and the transport of a registered connection changing under it (the
  peer goes away, a send starts to fail).
\<close>

datatype room_op =
    Subscribe "unit request" string nat
  | SocketClose string int
  | SocketError string int
  | HeartbeatTick string int
  | PublishMessage "message_data request" string int
  | SetTyping "typing_data request" int
  | SetPresence "room_presence_data request" int
  | SocketMessage client_frame string string int
  | TransportChange string websocket

definition transportChange :: "string \<Rightarrow> websocket \<Rightarrow> room \<Rightarrow> room" where
  "transportChange connectionId ws s =
     s\<lparr>connections :=
         map (\<lambda>(c, w). if c = connectionId then (c, ws) else (c, w)) (connections s)\<rparr>"

fun room_step :: "room_op \<Rightarrow> room \<Rightarrow> room" where
  "room_step (Subscribe request connectionId interval) s =
     snd (handleWebSocketUpgrade request connectionId interval s)"
| "room_step (SocketClose connectionId now) s = removeConnection connectionId now s"
| "room_step (SocketError connectionId now) s = removeConnection connectionId now s"
| "room_step (HeartbeatTick connectionId now) s = heartbeatTick connectionId now s"
| "room_step (PublishMessage request uuid now) s = snd (handleMessageRequest request uuid now s)"
| "room_step (SetTyping request now) s = snd (handleTypingRequest request now s)"
| "room_step (SetPresence request now) s = snd (handlePresenceRequest request now s)"
| "room_step (SocketMessage frame userId uuid now) s = onMessage frame userId uuid now s"
| "room_step (TransportChange connectionId ws) s = transportChange connectionId ws s"

fun room_run :: "room_op list \<Rightarrow> room \<Rightarrow> room" where
  "room_run [] s = s"
| "room_run (op # ops) s = room_run ops (room_step op s)"

text \<open>
  \<open>crypto.randomUUID()\<close> returns an id that no registered connection has: every
  \<open>Subscribe\<close> of the sequence carries an id that is not a key of \<open>connections\<close> then.
\<close>

fun fresh_ids :: "room_op list \<Rightarrow> room \<Rightarrow> bool" where
  "fresh_ids [] s = True"
| "fresh_ids (Subscribe request connectionId interval # ops) s =
     (connectionId \<notin> fst ` set (connections s) \<and>
      fresh_ids ops (room_step (Subscribe request connectionId interval) s))"
| "fresh_ids (op # ops) s = fresh_ids ops (room_step op s)"

text \<open>
  The registry invariant: the keys of \<open>connections\<close> are the ids in the sets of
  \<open>userConnections\<close>, no id is in two users' sets, and \<open>userConnections\<close> has one entry
  for a user.
\<close>

definition registry_ok :: "room \<Rightarrow> bool" where
  "registry_ok s =
     (fst ` set (connections s) = \<Union> (snd ` set (userConnections s)) \<and>
      (\<forall>e1 \<in> set (userConnections s). \<forall>e2 \<in> set (userConnections s).
         fst e1 \<noteq> fst e2 \<longrightarrow> snd e1 \<inter> snd e2 = {}) \<and>
      distinct (map fst (userConnections s)))"

section \<open>PresenceDurableObject\<close>

datatype presence_event =
    PresenceUpdate user_presence
  | TypingStart typing_indicator
  | TypingStop string string int
  | PresenceState "user_presence list" "typing_indicator list" int
  | PresencePing

text \<open>
  The fields of the class, \<open>ctx.storage\<close> (the entries written under
  \<open>presence:<userId>\<close>, keyed by the user id) and the trace of the transport calls. What
  shares its name with a field or a method of the room carries the suffix \<open>_presence\<close>.
\<close>

record presence_do =
  userPresence :: "(string \<times> user_presence) list"
  typingIndicators :: "(string \<times> typing_indicator) list"
  presenceSubscribers :: "(string \<times> websocket) list"
  heartbeatIntervals_presence :: "(string \<times> nat) list"
  storage :: "(string \<times> user_presence) list"
  presence_wire :: "presence_event io list"

text \<open>
  The bodies as the handlers cast them; the \<open>userId\<close> of the presence body is never read.
\<close>

record presence_data =
  presenceData_status :: status
  presenceData_deviceInfo :: "string option"
  presenceData_currentChatId :: "string option"

record presence_typing_data =
  presenceTyping_chatId :: string
  presenceTyping_isTyping :: bool

text \<open>The key \<open>`${userId}:${chatId}`\<close> of \<open>typingIndicators\<close>.\<close>

definition typing_key :: "string \<Rightarrow> string \<Rightarrow> string" where
  "typing_key userId chatId = userId @ '':'' @ chatId"

definition removePresenceSubscriber :: "string \<Rightarrow> presence_do \<Rightarrow> presence_do" where
  "removePresenceSubscriber connectionId s =
     (let s1 = (case map_of (presenceSubscribers s) connectionId of
                  Some ws \<Rightarrow>
                    s\<lparr>presenceSubscribers := AList.delete connectionId (presenceSubscribers s),
                      presence_wire := presence_wire s @ [Close connectionId]\<rparr>
                | None \<Rightarrow> s)
      in case map_of (heartbeatIntervals_presence s1) connectionId of
           Some interval \<Rightarrow>
             if interval \<noteq> 0
             then s1\<lparr>heartbeatIntervals_presence :=
                       AList.delete connectionId (heartbeatIntervals_presence s1)\<rparr>
             else s1
         | None \<Rightarrow> s1)"

definition broadcastPresenceUpdate :: "presence_event \<Rightarrow> presence_do \<Rightarrow> presence_do" where
  "broadcastPresenceUpdate update s =
     (case sendToAll update (presenceSubscribers s) (presence_wire s) of
        (out, deadConnections) \<Rightarrow>
          fold removePresenceSubscriber deadConnections (s\<lparr>presence_wire := out\<rparr>))"

definition setupHeartbeat_presence :: "string \<Rightarrow> nat \<Rightarrow> presence_do \<Rightarrow> presence_do" where
  "setupHeartbeat_presence connectionId interval s =
     s\<lparr>heartbeatIntervals_presence :=
         AList.update connectionId interval (heartbeatIntervals_presence s)\<rparr>"

definition heartbeatTick_presence :: "string \<Rightarrow> presence_do \<Rightarrow> presence_do" where
  "heartbeatTick_presence connectionId s =
     (case map_of (presenceSubscribers s) connectionId of
        Some ws \<Rightarrow>
          if readyState ws = OPEN
          then (if send_throws ws
                then s\<lparr>presence_wire := presence_wire s @ [Throw connectionId PresencePing]\<rparr>
                else s\<lparr>presence_wire := presence_wire s @ [Send connectionId PresencePing]\<rparr>)
          else removePresenceSubscriber connectionId s
      | None \<Rightarrow> removePresenceSubscriber connectionId s)"

text \<open>
  \<open>sendCurrentPresenceState(ws)\<close>; the socket comes with the id it is registered under,
  which labels the trace. An exception of \<open>ws.send\<close> leaves the method and, with no
  \<open>try\<close> around the call, \<open>handleWebSocketUpgrade\<close>.
\<close>

definition sendCurrentPresenceState ::
  "string \<times> websocket \<Rightarrow> int \<Rightarrow> presence_do \<Rightarrow> error option \<times> presence_do" where
  "sendCurrentPresenceState conn now s =
     (case conn of (connectionId, ws) \<Rightarrow>
      let presenceArray = map snd (userPresence s);
          typingArray = map snd (typingIndicators s);
          stateMessage = PresenceState presenceArray typingArray now
      in if readyState ws = OPEN
         then (if send_throws ws
               then (Some SendFailed,
                     s\<lparr>presence_wire := presence_wire s @ [Throw connectionId stateMessage]\<rparr>)
               else (None,
                     s\<lparr>presence_wire := presence_wire s @ [Send connectionId stateMessage]\<rparr>))
         else (None, s))"

definition handleWebSocketUpgrade_presence ::
  "'b request \<Rightarrow> string \<Rightarrow> nat \<Rightarrow> int \<Rightarrow> presence_do \<Rightarrow> (error + response) \<times> presence_do" where
  "handleWebSocketUpgrade_presence request connectionId interval now s =
     (if upgradeHeader request \<noteq> Some ''websocket''
      then (Inr \<lparr>status_code = 400, body = Text ''Expected websocket''\<rparr>, s)
      else
        let s1 = s\<lparr>presenceSubscribers :=
                     AList.update connectionId accepted (presenceSubscribers s)\<rparr>;
            s2 = setupHeartbeat_presence connectionId interval s1
        in case sendCurrentPresenceState (connectionId, accepted) now s2 of
             (Some e, s3) \<Rightarrow> (Inl e, s3)
           | (None, s3) \<Rightarrow> (Inr \<lparr>status_code = 101, body = WebSocketClient connectionId\<rparr>, s3))"

definition handlePresenceRequest_presence ::
  "presence_data request \<Rightarrow> int \<Rightarrow> presence_do \<Rightarrow> response \<times> presence_do" where
  "handlePresenceRequest_presence request now s =
     (if http_method request \<noteq> ''POST''
      then (\<lparr>status_code = 405, body = Text ''Method not allowed''\<rparr>, s)
      else case json request of
        None \<Rightarrow> (\<lparr>status_code = 500, body = Text ''Internal server error''\<rparr>, s)
      | Some presenceData \<Rightarrow>
          (case getUserIdFromRequest request of
             None \<Rightarrow> (\<lparr>status_code = 500, body = Text ''Internal server error''\<rparr>, s)
           | Some userId \<Rightarrow>
               let updatedPresence =
                     \<lparr>presence_userId = userId,
                      status = presenceData_status presenceData,
                      lastSeenAt = now,
                      deviceInfo = presenceData_deviceInfo presenceData,
                      currentChatId = presenceData_currentChatId presenceData,
                      isTyping = None,
                      typingInChatId = None\<rparr>;
                   s1 = s\<lparr>userPresence := AList.update userId updatedPresence (userPresence s)\<rparr>;
                   s2 = broadcastPresenceUpdate (PresenceUpdate updatedPresence) s1;
                   s3 = s2\<lparr>storage := AList.update userId updatedPresence (storage s2)\<rparr>
               in (\<lparr>status_code = 200, body = JsonSuccess\<rparr>, s3)))"

definition handleTypingRequest_presence ::
  "presence_typing_data request \<Rightarrow> int \<Rightarrow> presence_do \<Rightarrow> response \<times> presence_do" where
  "handleTypingRequest_presence request now s =
     (if http_method request \<noteq> ''POST''
      then (\<lparr>status_code = 405, body = Text ''Method not allowed''\<rparr>, s)
      else case json request of
        None \<Rightarrow> (\<lparr>status_code = 500, body = Text ''Internal server error''\<rparr>, s)
      | Some typingData \<Rightarrow>
          (case getUserIdFromRequest request of
             None \<Rightarrow> (\<lparr>status_code = 500, body = Text ''Internal server error''\<rparr>, s)
           | Some userId \<Rightarrow>
               if presenceTyping_isTyping typingData then
                 let typingIndicator =
                       \<lparr>indicator_userId = userId,
                        indicator_chatId = presenceTyping_chatId typingData,
                        indicator_timestamp = now\<rparr>;
                     s1 = s\<lparr>typingIndicators :=
                            AList.update (typing_key userId (presenceTyping_chatId typingData))
                              typingIndicator (typingIndicators s)\<rparr>;
                     s2 = (case map_of (userPresence s1) userId of
                             Some currentPresence \<Rightarrow>
                               s1\<lparr>userPresence :=
                                    AList.update userId
                                      (currentPresence
                                         \<lparr>isTyping := Some True,
                                          typingInChatId :=
                                            Some (presenceTyping_chatId typingData)\<rparr>)
                                      (userPresence s1)\<rparr>
                           | None \<Rightarrow> s1)
                 in (\<lparr>status_code = 200, body = JsonSuccess\<rparr>,
                     broadcastPresenceUpdate (TypingStart typingIndicator) s2)
               else
                 let typingKey = typing_key userId (presenceTyping_chatId typingData);
                     s1 = s\<lparr>typingIndicators := AList.delete typingKey (typingIndicators s)\<rparr>;
                     s2 = (case map_of (userPresence s1) userId of
                             Some currentPresence \<Rightarrow>
                               s1\<lparr>userPresence :=
                                    AList.update userId
                                      (currentPresence
                                         \<lparr>isTyping := Some False, typingInChatId := None\<rparr>)
                                      (userPresence s1)\<rparr>
                           | None \<Rightarrow> s1)
                 in (\<lparr>status_code = 200, body = JsonSuccess\<rparr>,
                     broadcastPresenceUpdate
                       (TypingStop userId (presenceTyping_chatId typingData) now) s2)))"

definition handleStatusRequest :: "'b request \<Rightarrow> presence_do \<Rightarrow> response \<times> presence_do" where
  "handleStatusRequest request s =
     (case getUserIdFromRequest request of
        None \<Rightarrow> (\<lparr>status_code = 500, body = Text ''Internal server error''\<rparr>, s)
      | Some userId \<Rightarrow>
          (case map_of (userPresence s) userId of
             None \<Rightarrow> (\<lparr>status_code = 200, body = JsonStatusOffline\<rparr>, s)
           | Some presence \<Rightarrow> (\<lparr>status_code = 200, body = JsonPresence presence\<rparr>, s)))"

datatype presence_handler =
    PresenceWebSocket | PresencePresence | PresenceTyping | PresenceStatus | PresenceNotFound

definition presence_fetch :: "string \<Rightarrow> presence_handler" where
  "presence_fetch path =
     (if path = ''/websocket'' then PresenceWebSocket
      else if path = ''/presence'' then PresencePresence
      else if path = ''/typing'' then PresenceTyping
      else if path = ''/status'' then PresenceStatus
      else PresenceNotFound)"

definition getAllPresence :: "presence_do \<Rightarrow> user_presence list" where
  "getAllPresence s = map snd (userPresence s)"

definition getUserPresence :: "string \<Rightarrow> presence_do \<Rightarrow> user_presence option" where
  "getUserPresence userId s = map_of (userPresence s) userId"

definition getTypingIndicators :: "string \<Rightarrow> presence_do \<Rightarrow> typing_indicator list" where
  "getTypingIndicators chatId s =
     filter (\<lambda>indicator. indicator_chatId indicator = chatId) (map snd (typingIndicators s))"

subsection \<open>The sweep\<close>

text \<open>The body of the second loop of \<open>cleanupExpiredTypingIndicators\<close>, for one key.\<close>

definition expireTypingIndicator :: "int \<Rightarrow> string \<Rightarrow> presence_do \<Rightarrow> presence_do" where
  "expireTypingIndicator now key s =
     (case map_of (typingIndicators s) key of
        None \<Rightarrow> s
      | Some indicator \<Rightarrow>
          let s1 = s\<lparr>typingIndicators := AList.delete key (typingIndicators s)\<rparr>;
              s2 = (case map_of (userPresence s1) (indicator_userId indicator) of
                      Some p \<Rightarrow>
                        s1\<lparr>userPresence :=
                             AList.update (indicator_userId indicator)
                               (p\<lparr>isTyping := Some False, typingInChatId := None\<rparr>)
                               (userPresence s1)\<rparr>
                    | None \<Rightarrow> s1)
          in broadcastPresenceUpdate
               (TypingStop (indicator_userId indicator) (indicator_chatId indicator) now) s2)"

definition expiredKeys :: "int \<Rightarrow> (string \<times> typing_indicator) list \<Rightarrow> string list" where
  "expiredKeys now indicators =
     map fst (filter (\<lambda>(key, indicator). now - indicator_timestamp indicator > 10000) indicators)"

definition cleanupExpiredTypingIndicators :: "int \<Rightarrow> presence_do \<Rightarrow> presence_do" where
  "cleanupExpiredTypingIndicators now s =
     fold (expireTypingIndicator now) (expiredKeys now (typingIndicators s)) s"

text \<open>One iteration of the loop of \<open>alarm\<close>, on the entry \<open>[userId, presence]\<close>.\<close>

definition demoteStale :: "int \<Rightarrow> string \<times> user_presence \<Rightarrow> presence_do \<Rightarrow> presence_do" where
  "demoteStale fiveMinutesAgo entry s =
     (case entry of (userId, presence) \<Rightarrow>
        if lastSeenAt presence < fiveMinutesAgo \<and> status presence = online
        then
          let demoted = presence\<lparr>status := offline\<rparr>;
              s1 = s\<lparr>userPresence := AList.update userId demoted (userPresence s)\<rparr>
          in broadcastPresenceUpdate (PresenceUpdate demoted) s1
        else s)"

text \<open>
  \<open>alarm\<close>: \<open>now\<close> is the \<open>Date.now()\<close> of \<open>cleanupExpiredTypingIndicators\<close>, \<open>now'\<close> the
  one read after it for \<open>fiveMinutesAgo\<close>.
\<close>

definition alarm :: "int \<Rightarrow> int \<Rightarrow> presence_do \<Rightarrow> presence_do" where
  "alarm now now' s =
     (let s1 = cleanupExpiredTypingIndicators now s;
          fiveMinutesAgo = now' - 300000
      in fold (demoteStale fiveMinutesAgo) (userPresence s1) s1)"

text \<open>
  A subscriber that a broadcast reaches: registered (once), open, and its send returns.
\<close>

definition listening :: "string \<Rightarrow> presence_do \<Rightarrow> bool" where
  "listening c s =
     (distinct (map fst (presenceSubscribers s)) \<and>
      (case map_of (presenceSubscribers s) c of Some ws \<Rightarrow> healthy ws | None \<Rightarrow> False))"

section \<open>The router's message endpoint and the persistence helper\<close>

text \<open>
  \<open>persistMessageToDatabase\<close> and the handler of \<open>POST /api/chat/:chatId/message\<close> (the
  router file). The database is the collaborator behind \<open>c.get("db")\<close>: the model keeps the
  statements it has been handed, in order, and its answer to an insert (\<open>accepts\<close>: the
  awaited promise resolves; otherwise it rejects). The table \<open>messages\<close> declares \<open>sender_id\<close>
  \<open>NOT NULL\<close> and its three time columns in the mode \<open>timestamp\<close>; the helper passes
  \<open>c.get("userId")\<close> and the numbers of \<open>Date.now()\<close>.
\<close>

record message_values =
  values_id :: string
  values_chatId :: string
  values_senderId :: "string option"
  values_content :: string
  values_type :: string
  values_metadata :: json
  values_status :: string
  values_sentAt :: int
  values_createdAt :: int
  values_updatedAt :: int

datatype statement =
    InsertMessage message_values
  | UpdateChat string int int

record db =
  received :: "statement list"
  accepts :: "message_values \<Rightarrow> bool"

text \<open>
  The Hono context of a request to the endpoint: \<open>c.req.param("chatId")\<close>, \<open>c.req.raw\<close>
  (\<open>c.req.json()\<close> is the body of that request) and \<open>c.get("userId")\<close>. The middlewares of the
  repository store the variables \<open>client\<close>, \<open>db\<close>, \<open>user\<close> and \<open>clerk\<close>; none stores \<open>userId\<close>.
\<close>

record 'b hono_context =
  param_chatId :: "string option"
  raw :: "'b request"
  var_userId :: "string option"

text \<open>
  What one call of the helper draws from the platform: the \<open>crypto.randomUUID()\<close> and the
  five \<open>Date.now()\<close> of its two statements, in the order in which they are read.
\<close>

record helper_draws =
  draw_id :: string
  draw_sentAt :: int
  draw_createdAt :: int
  draw_updatedAt :: int
  draw_lastMessageAt :: int
  draw_chatUpdatedAt :: int

text \<open>
  \<open>metadata\<close> is the value given to \<open>JSON.stringify\<close>. A rejected insert is caught and
  logged; the update of \<open>chats\<close> is then not reached.
\<close>

definition persistMessageToDatabase ::
  "'b hono_context \<Rightarrow> string \<Rightarrow> message_data \<Rightarrow> helper_draws \<Rightarrow> db \<Rightarrow> db" where
  "persistMessageToDatabase c chatId messageData env d =
     (let userId = var_userId c;
          row = \<lparr>values_id = draw_id env, values_chatId = chatId, values_senderId = userId,
                 values_content = content messageData, values_type = type messageData,
                 values_metadata = metadata_or_empty (metadata messageData),
                 values_status = ''sent'', values_sentAt = draw_sentAt env,
                 values_createdAt = draw_createdAt env,
                 values_updatedAt = draw_updatedAt env\<rparr>;
          d1 = d\<lparr>received := received d @ [InsertMessage row]\<rparr>
      in if accepts d row
         then d1\<lparr>received := received d1 @
                  [UpdateChat chatId (draw_lastMessageAt env) (draw_chatUpdatedAt env)]\<rparr>
         else d1)"

text \<open>The path of the request that the endpoint builds for the room's object.\<close>

definition messageRequestPath :: "string \<Rightarrow> string" where
  "messageRequestPath chatId = ''/chat/'' @ chatId @ ''/message''"

text \<open>
  The endpoint. \<open>c.env.DO_CHAT_ROOM\<close> is the namespace of \<open>ChatRoomDurableObject\<close>, so
  \<open>chatRoomStub.fetch\<close> is \<open>fetch\<close> on the room of the chat; the body it receives is the
  text of \<open>JSON.stringify(body)\<close>, which the room parses back, and \<open>view\<close> holds the casts of
  the room's handlers for it. The request carries the headers of \<open>c.req.raw\<close>, and its URL
  has no query. \<open>room_draws\<close> is what the room's handler draws (\<open>uuid\<close>, \<open>interval\<close>, \<open>now\<close>),
  \<open>env\<close> what the helper draws, and \<open>now\<close> the \<open>Date.now()\<close> of an error response. Every
  error that reaches the \<open>catch\<close> is an \<open>Error\<close>, so the response carries its message.
\<close>

definition postChatMessage ::
  "message_data casts \<Rightarrow> message_data hono_context \<Rightarrow> string \<times> nat \<times> int \<Rightarrow> helper_draws \<Rightarrow>
   int \<Rightarrow> room \<times> db \<Rightarrow> response \<times> room \<times> db" where
  "postChatMessage view c room_draws env now sd =
     (case sd of (s, d) \<Rightarrow>
      (case json (raw c) of
        None \<Rightarrow> (\<lparr>status_code = 500, body = JsonThrown JsonRejected now\<rparr>, s, d)
      | Some b \<Rightarrow>
          (case (if truthy (param_chatId c) then param_chatId c else None) of
             None \<Rightarrow>
               (\<lparr>status_code = 400, body = JsonFailure ''Chat ID is required'' now\<rparr>, s, d)
           | Some chatId \<Rightarrow>
               if content b = [] \<or> type b = []
               then (\<lparr>status_code = 400,
                      body = JsonFailure ''Message content and type are required'' now\<rparr>, s, d)
               else
                 let messageRequest =
                       \<lparr>http_method = ''POST'', pathname = messageRequestPath chatId,
                        upgradeHeader = upgradeHeader (raw c), xUserId = xUserId (raw c),
                        cfAccessJwtClaims = cfAccessJwtClaims (raw c), queryUserId = None,
                        json = Some b\<rparr>
                 in (case room_draws of (uuid, interval, now_room) \<Rightarrow>
                     (case fetch view messageRequest uuid interval now_room s of
                        (Inl e, s') \<Rightarrow>
                          (\<lparr>status_code = 500, body = JsonThrown (Raised e) now\<rparr>, s', d)
                      | (Inr response, s') \<Rightarrow>
                          if ok response
                          then (response, s', persistMessageToDatabase c chatId b env d)
                          else (response, s', d))))))"

section \<open>Concrete states and requests\<close>

text \<open>The state of a room right after construction, and requests as the router forwards them.\<close>

definition new_room :: room where
  "new_room = \<lparr>connections = [], userConnections = [], typingUsers = {},
               heartbeatIntervals = [], wire = []\<rparr>"

definition upgrade_request :: "string \<Rightarrow> unit request" where
  "upgrade_request u =
     \<lparr>http_method = ''GET'', pathname = ''/websocket'', upgradeHeader = Some ''websocket'',
      xUserId = Some u, cfAccessJwtClaims = None, queryUserId = None, json = None\<rparr>"

definition message_request :: "string \<Rightarrow> message_data request" where
  "message_request u =
     \<lparr>http_method = ''POST'', pathname = ''/message'', upgradeHeader = None,
      xUserId = Some u, cfAccessJwtClaims = None, queryUserId = None,
      json = Some \<lparr>content = ''hi'', type = ''text'', metadata = None\<rparr>\<rparr>"

text \<open>
  User A subscribes twice and user B once, B's transport dies, A publishes a message, and
  A's first connection closes.
\<close>

definition registry_scenario :: "room_op list" where
  "registry_scenario =
     [Subscribe (upgrade_request ''A'') ''c1'' 1,
      Subscribe (upgrade_request ''A'') ''c2'' 2,
      Subscribe (upgrade_request ''B'') ''c3'' 3,
      TransportChange ''c3'' \<lparr>readyState = CLOSED, send_throws = False\<rparr>,
      PublishMessage (message_request ''A'') ''m1'' 100,
      SocketClose ''c1'' 200]"

lemmas room_eval =
  new_room_def upgrade_request_def message_request_def
  handleWebSocketUpgrade_def handleMessageRequest_def getUserIdFromRequest_def truthy_def
  setupHeartbeat_def accepted_def transportChange_def metadata_or_empty_def
  broadcastMessage.simps removeConnection.simps sendToAll_def send_step_def
  closeConnection_def clearHeartbeat_def Let_def insert_Diff_if

text \<open>Sockets that a broadcast finds dead, and a room and a presence object holding some.\<close>

definition closed_socket :: websocket where
  "closed_socket = \<lparr>readyState = CLOSED, send_throws = False\<rparr>"

definition broken_socket :: websocket where
  "broken_socket = \<lparr>readyState = OPEN, send_throws = True\<rparr>"

definition broadcast_room :: room where
  "broadcast_room =
     \<lparr>connections = [(''c1'', accepted), (''c2'', closed_socket), (''c3'', broken_socket),
                     (''c4'', accepted)],
      userConnections = [(''A'', {''c1'', ''c2''}), (''B'', {''c3''}), (''C'', {''c4''})],
      typingUsers = {},
      heartbeatIntervals = [(''c1'', 1), (''c2'', 2), (''c3'', 3), (''c4'', 4)],
      wire = []\<rparr>"

definition new_presence :: presence_do where
  "new_presence = \<lparr>userPresence = [], typingIndicators = [], presenceSubscribers = [],
                   heartbeatIntervals_presence = [], storage = [], presence_wire = []\<rparr>"

definition broadcast_presence :: presence_do where
  "broadcast_presence =
     new_presence\<lparr>presenceSubscribers :=
                    [(''p1'', accepted), (''p2'', closed_socket), (''p3'', broken_socket)],
                  heartbeatIntervals_presence := [(''p1'', 1), (''p2'', 2), (''p3'', 3)]\<rparr>"

lemmas presence_eval =
  new_presence_def broadcastPresenceUpdate_def removePresenceSubscriber_def
  sendToAll_def send_step_def accepted_def Let_def getUserIdFromRequest_def truthy_def

text \<open>Users A and B each hold one connection to the room of a conversation.\<close>

definition two_user_room :: room where
  "two_user_room =
     room_run [Subscribe (upgrade_request ''A'') ''c1'' 1,
               Subscribe (upgrade_request ''B'') ''c2'' 2] new_room"

text \<open>
  A database that has received nothing and enforces \<open>NOT NULL\<close> on \<open>sender_id\<close>, and the
  context of the request \<open>POST /api/chat/chat1/message\<close> with the body
  \<open>{content: "hi", type: "text"}\<close> that user A sends.
\<close>

definition messages_db :: db where
  "messages_db = \<lparr>received = [], accepts = (\<lambda>row. values_senderId row \<noteq> None)\<rparr>"

definition publish_context :: "message_data hono_context" where
  "publish_context =
     \<lparr>param_chatId = Some ''chat1'',
      raw = (message_request ''A'')\<lparr>pathname := ''/api/chat/chat1/message''\<rparr>,
      var_userId = None\<rparr>"

text \<open>Requests to the presence object, as the router forwards them for user \<open>u\<close>.\<close>

definition status_request :: "string \<Rightarrow> unit request" where
  "status_request u =
     \<lparr>http_method = ''GET'', pathname = ''/status'', upgradeHeader = None,
      xUserId = Some u, cfAccessJwtClaims = None, queryUserId = None, json = None\<rparr>"

definition presence_request :: "string \<Rightarrow> status \<Rightarrow> presence_data request" where
  "presence_request u st =
     \<lparr>http_method = ''POST'', pathname = ''/presence'', upgradeHeader = None,
      xUserId = Some u, cfAccessJwtClaims = None, queryUserId = None,
      json = Some \<lparr>presenceData_status = st, presenceData_deviceInfo = None,
                   presenceData_currentChatId = None\<rparr>\<rparr>"

definition typing_request :: "string \<Rightarrow> string \<Rightarrow> bool \<Rightarrow> presence_typing_data request" where
  "typing_request u chat flag =
     \<lparr>http_method = ''POST'', pathname = ''/typing'', upgradeHeader = None,
      xUserId = Some u, cfAccessJwtClaims = None, queryUserId = None,
      json = Some \<lparr>presenceTyping_chatId = chat, presenceTyping_isTyping = flag\<rparr>\<rparr>"

definition room_typing_request :: "string \<Rightarrow> bool \<Rightarrow> typing_data request" where
  "room_typing_request u flag =
     \<lparr>http_method = ''POST'', pathname = ''/typing'', upgradeHeader = None,
      xUserId = Some u, cfAccessJwtClaims = None, queryUserId = None,
      json = Some \<lparr>typingData_isTyping = flag\<rparr>\<rparr>"

text \<open>
  User u1 announces itself online at time 1000 and subscribes (connection \<open>c1\<close>); user u2
  subscribes as well (connection \<open>c2\<close>).
\<close>

definition disconnect_scene :: presence_do where
  "disconnect_scene =
     snd (handleWebSocketUpgrade_presence (upgrade_request ''u2'') ''c2'' 2 1002
       (snd (handleWebSocketUpgrade_presence (upgrade_request ''u1'') ''c1'' 1 1001
         (snd (handlePresenceRequest_presence (presence_request ''u1'' online) 1000 new_presence)))))"

text \<open>User u1 starts typing in chat1 at time 0 and sends nothing more.\<close>

definition stale_typing_scene :: presence_do where
  "stale_typing_scene =
     snd (handleTypingRequest_presence (typing_request ''u1'' ''chat1'' True) 0 new_presence)"

text \<open>One subscriber, and nobody typing: on the presence object and in a room.\<close>

definition idle_presence_scene :: presence_do where
  "idle_presence_scene =
     snd (handleWebSocketUpgrade_presence (upgrade_request ''u2'') ''c1'' 1 1 new_presence)"

definition idle_room_scene :: room where
  "idle_room_scene = room_run [Subscribe (upgrade_request ''A'') ''c1'' 1] new_room"

lemmas presence_handlers_eval =
  handleWebSocketUpgrade_presence_def handlePresenceRequest_presence_def handleTypingRequest_presence_def
  handleStatusRequest_def sendCurrentPresenceState_def setupHeartbeat_presence_def
  upgrade_request_def status_request_def presence_request_def typing_request_def
  typing_key_def

text \<open>
  What every reachable state of the presence object satisfies: \<open>typingIndicators\<close> and
  \<open>userPresence\<close> are \<open>Map\<close>s (one entry for a key), an indicator is stored under the key of
  its own user and chat, and a presence record under its own user.
\<close>

definition typing_ok :: "presence_do \<Rightarrow> bool" where
  "typing_ok s =
     (distinct (map fst (typingIndicators s)) \<and>
      (\<forall>e \<in> set (typingIndicators s).
         fst e = typing_key (indicator_userId (snd e)) (indicator_chatId (snd e))))"

fun is_typing_stop_for :: "string \<Rightarrow> string \<Rightarrow> presence_event \<Rightarrow> bool" where
  "is_typing_stop_for u chat (TypingStop u' chat' t) = (u' = u \<and> chat' = chat)"
| "is_typing_stop_for u chat _ = False"

text \<open>The \<open>typing_stop\<close> events of a sweep at time \<open>now\<close> over the indicators \<open>al\<close>.\<close>

definition sweep_stops :: "int \<Rightarrow> (string \<times> typing_indicator) list \<Rightarrow> presence_event list" where
  "sweep_stops now al =
     map (\<lambda>(key, indicator).
            TypingStop (indicator_userId indicator) (indicator_chatId indicator) now)
       (filter (\<lambda>(key, indicator). now - indicator_timestamp indicator > 10000) al)"

text \<open>
  User u1 starts typing in chat1 at time 0; user u2 subscribes (connection \<open>c9\<close>) a
  millisecond later.
\<close>

definition typing_watch_scene :: presence_do where
  "typing_watch_scene =
     snd (handleWebSocketUpgrade_presence (upgrade_request ''u2'') ''c9'' 1 1 stale_typing_scene)"

definition presence_ok :: "presence_do \<Rightarrow> bool" where
  "presence_ok s =
     (distinct (map fst (userPresence s)) \<and>
      (\<forall>e \<in> set (userPresence s). presence_userId (snd e) = fst e))"

text \<open>What the typing sweep writes into the record of a user whose indicator it expires.\<close>

definition clear_typing :: "user_presence \<Rightarrow> user_presence" where
  "clear_typing p = p\<lparr>isTyping := Some False, typingInChatId := None\<rparr>"

text \<open>The test of the loop of \<open>alarm\<close>.\<close>

definition stale_online :: "int \<Rightarrow> user_presence \<Rightarrow> bool" where
  "stale_online fiveMinutesAgo p = (lastSeenAt p < fiveMinutesAgo \<and> status p = online)"

fun is_presence_update_for :: "string \<Rightarrow> presence_event \<Rightarrow> bool" where
  "is_presence_update_for u (PresenceUpdate p) = (presence_userId p = u)"
| "is_presence_update_for u _ = False"

text \<open>The users whose typing indicator a sweep at time \<open>now\<close> expires.\<close>

definition expiring_users :: "int \<Rightarrow> presence_do \<Rightarrow> string set" where
  "expiring_users now s =
     indicator_userId ` snd `
       set (filter (\<lambda>(key, indicator). now - indicator_timestamp indicator > 10000)
              (typingIndicators s))"

text \<open>
  At time 1000 user u1 announces itself online and user u2 away, and both start typing in
  chat1; user u3 subscribes (connection \<open>c9\<close>).
\<close>

definition sweep_scene :: presence_do where
  "sweep_scene =
     snd (handleWebSocketUpgrade_presence (upgrade_request ''u3'') ''c9'' 1 1001
       (snd (handleTypingRequest_presence (typing_request ''u2'' ''chat1'' True) 1000
         (snd (handleTypingRequest_presence (typing_request ''u1'' ''chat1'' True) 1000
           (snd (handlePresenceRequest_presence (presence_request ''u2'' away) 1000
             (snd (handlePresenceRequest_presence (presence_request ''u1'' online) 1000
                new_presence)))))))))"

lemmas sweep_eval =
  alarm_def cleanupExpiredTypingIndicators_def expiredKeys_def expireTypingIndicator_def
  demoteStale_def

text \<open>
  The heartbeat map after the timers of the ids in \<open>R\<close> have been cleared. Both classes
  clear a timer under \<open>if (interval)\<close>: an entry whose timer id is 0 stays.
\<close>

definition cleared :: "string set \<Rightarrow> (string \<times> nat) list \<Rightarrow> (string \<times> nat) list" where
  "cleared R timers = filter (\<lambda>e. fst e \<notin> R \<or> map_of timers (fst e) = Some 0) timers"

section \<open>Properties of the room\<close>

subsection \<open>The two loops of a broadcast\<close>

lemma send_fold:
  "fold (send_step ev) conns (out, dead) = (out @ deliveries ev conns, dead @ deadIds conns)"
proof (induction conns arbitrary: out dead)
  case Nil
  show ?case by (simp add: deliveries_def deadIds_def)
next
  case (Cons entry conns)
  obtain c ws where e: "entry = (c, ws)" by (cases entry)
  have step: "send_step ev (c, ws) (out, dead) =
      (if readyState ws = OPEN
       then (if send_throws ws then (out @ [Throw c ev], dead @ [c])
             else (out @ [Send c ev], dead))
       else (out, dead @ [c]))"
    by (simp add: send_step_def)
  have tl: "deliveries ev ((c, ws) # conns) =
              (if readyState ws = OPEN
               then [if send_throws ws then Throw c ev else Send c ev] else [])
              @ deliveries ev conns"
    "deadIds ((c, ws) # conns) = (if healthy ws then [] else [c]) @ deadIds conns"
    by (simp_all add: deliveries_def deadIds_def)
  show ?case
    by (cases "readyState ws = OPEN"; cases "send_throws ws")
       (simp_all add: e step tl Cons.IH healthy_def)
qed

lemma sendToAll_eq:
  "sendToAll ev conns out = (out @ deliveries ev conns, deadIds conns)"
  by (simp add: sendToAll_def send_fold)

lemma broadcastMessage_unfold:
  "broadcastMessage ev now s =
     removeDead (deadIds (connections s)) now (s\<lparr>wire := wire s @ deliveries ev (connections s)\<rparr>)"
  by (simp add: broadcastMessage.simps sendToAll_eq)

lemma removeConnection_none:
  "owner c s = None \<Longrightarrow> removeConnection c now s = detach c s"
  by (simp add: removeConnection.simps owner_def detach_def)

lemma removeConnection_more:
  "owner c s = Some (u, ids) \<Longrightarrow> ids - {c} \<noteq> {} \<Longrightarrow>
   removeConnection c now s =
     (detach c s)\<lparr>userConnections := AList.update u (ids - {c}) (userConnections s)\<rparr>"
  by (simp add: removeConnection.simps owner_def detach_def Let_def)

lemma removeConnection_last:
  "owner c s = Some (u, ids) \<Longrightarrow> ids - {c} = {} \<Longrightarrow>
   removeConnection c now s =
     broadcastMessage (Presence u ''offline'' now) now
       ((detach c s)\<lparr>userConnections := AList.delete u (userConnections s)\<rparr>)"
  by (simp add: removeConnection.simps owner_def detach_def Let_def)

lemma room_induct [case_names broadcast nil cons remove]:
  assumes b: "\<And>ev now s. Q (deadIds (connections s)) now
                  (s\<lparr>wire := wire s @ deliveries ev (connections s)\<rparr>) \<Longrightarrow> P ev now s"
    and n: "\<And>now s. Q [] now s"
    and c: "\<And>c rest now s. R c now s \<Longrightarrow> Q rest now (removeConnection c now s)
                  \<Longrightarrow> Q (c # rest) now s"
    and r: "\<And>c now s.
              (\<And>u ids. owner c s = Some (u, ids) \<Longrightarrow> ids - {c} = {} \<Longrightarrow>
                  P (Presence u ''offline'' now) now
                    ((detach c s)\<lparr>userConnections := AList.delete u (userConnections s)\<rparr>))
              \<Longrightarrow> R c now s"
  shows "P ev now s" and "Q dead now s" and "R c now s"
proof (induction ev now s and dead now s and c now s
       rule: broadcastMessage_removeDead_removeConnection.induct)
  case (1 message now s)
  show ?case
    by (rule b) (use 1[of "wire s @ deliveries message (connections s)" "deadIds (connections s)"]
        in \<open>simp add: sendToAll_eq\<close>)
next
  case (2 now s)
  show ?case by (rule n)
next
  case (3 connectionId rest now s)
  then show ?case by (intro c)
next
  case (4 connectionId now s)
  show ?case
  proof (rule r)
    fix u ids
    assume "owner connectionId s = Some (u, ids)" "ids - {connectionId} = {}"
    then show "P (Presence u ''offline'' now) now
                 ((detach connectionId s)\<lparr>userConnections := AList.delete u (userConnections s)\<rparr>)"
      using 4[of "detach connectionId s" "(u, ids)" u ids]
      by (simp add: owner_def detach_def)
  qed
qed


lemma delete_absent: "map_of al k = None \<Longrightarrow> AList.delete k al = al"
  by (induction al) auto

lemma detach_fields [simp]:
  "typingUsers (detach c s) = typingUsers s"
  "userConnections (detach c s) = userConnections s"
  "connections (detach c s) = AList.delete c (connections s)"
  by (auto simp: detach_def clearHeartbeat_def closeConnection_def delete_absent
           split: option.splits)

lemma typingUsers_frame:
  "typingUsers (broadcastMessage ev now s) = typingUsers s"
  "typingUsers (removeDead dead now s) = typingUsers s"
  "typingUsers (removeConnection c now s) = typingUsers s"
proof (induction ev now s and dead now s and c now s rule: room_induct)
  case (broadcast ev now s)
  then show ?case by (simp add: broadcastMessage_unfold)
next
  case (nil now s)
  show ?case by simp
next
  case (cons c rest now s)
  then show ?case by simp
next
  case (remove c now s)
  show ?case
  proof (cases "owner c s")
    case None
    then show ?thesis by (simp add: removeConnection_none)
  next
    case (Some a)
    obtain u ids where a: "a = (u, ids)" by (cases a)
    show ?thesis
    proof (cases "ids - {c} = {}")
      case True
      then show ?thesis using Some a remove[of u ids] by (simp add: removeConnection_last)
    next
      case False
      then show ?thesis using Some a by (simp add: removeConnection_more)
    qed
  qed
qed


lemma delete_as_filter: "AList.delete k al = filter (\<lambda>e. fst e \<notin> {k}) al"
  by (induction al) auto

lemma deadIds_filter: "set (deadIds (filter P al)) \<subseteq> set (deadIds al)"
  by (auto simp: deadIds_def)

lemma connections_pruned:
  "connections (broadcastMessage ev now s) =
     filter (\<lambda>e. fst e \<notin> set (deadIds (connections s))) (connections s)"
  "\<exists>R. set dead \<subseteq> R \<and> R \<subseteq> set dead \<union> set (deadIds (connections s)) \<and>
       connections (removeDead dead now s) = filter (\<lambda>e. fst e \<notin> R) (connections s)"
  "\<exists>R. c \<in> R \<and> R \<subseteq> insert c (set (deadIds (connections s))) \<and>
       connections (removeConnection c now s) = filter (\<lambda>e. fst e \<notin> R) (connections s)"
proof (induction ev now s and dead now s and c now s rule: room_induct)
  case (broadcast ev now s)
  then obtain R where R: "set (deadIds (connections s)) \<subseteq> R"
      "R \<subseteq> set (deadIds (connections s)) \<union> set (deadIds (connections s))"
      "connections (broadcastMessage ev now s) = filter (\<lambda>e. fst e \<notin> R) (connections s)"
    by (auto simp: broadcastMessage_unfold)
  then have "R = set (deadIds (connections s))" by blast
  with R(3) show ?case by simp
next
  case (nil now s)
  show ?case by (rule exI[of _ "{}"]) simp
next
  case (cons c rest now s)
  let ?s1 = "removeConnection c now s"
  from cons(1) obtain R1 where R1: "c \<in> R1" "R1 \<subseteq> insert c (set (deadIds (connections s)))"
      "connections ?s1 = filter (\<lambda>e. fst e \<notin> R1) (connections s)" by blast
  from cons(2) obtain R2 where R2: "set rest \<subseteq> R2"
      "R2 \<subseteq> set rest \<union> set (deadIds (connections ?s1))"
      "connections (removeDead rest now ?s1) = filter (\<lambda>e. fst e \<notin> R2) (connections ?s1)"
    by blast
  have sub: "set (deadIds (connections ?s1)) \<subseteq> set (deadIds (connections s))"
    unfolding R1(3) by (rule deadIds_filter)
  show ?case
  proof (intro exI[of _ "R1 \<union> R2"] conjI)
    show "set (c # rest) \<subseteq> R1 \<union> R2" using R1(1) R2(1) by auto
    show "R1 \<union> R2 \<subseteq> set (c # rest) \<union> set (deadIds (connections s))"
      using R1(2) R2(2) sub by auto
    show "connections (removeDead (c # rest) now s) =
            filter (\<lambda>e. fst e \<notin> R1 \<union> R2) (connections s)"
      by (simp add: R2(3) R1(3))
  qed
next
  case (remove c now s)
  show ?case
  proof (cases "owner c s")
    case None
    then show ?thesis
      by (intro exI[of _ "{c}"]) (simp add: removeConnection_none delete_as_filter)
  next
    case (Some a)
    obtain u ids where a: "a = (u, ids)" by (cases a)
    show ?thesis
    proof (cases "ids - {c} = {}")
      case True
      let ?s2 = "(detach c s)\<lparr>userConnections := AList.delete u (userConnections s)\<rparr>"
      have eq: "connections (removeConnection c now s) =
          filter (\<lambda>e. fst e \<notin> set (deadIds (connections ?s2))) (connections ?s2)"
        using remove[of u ids] Some a True by (simp add: removeConnection_last)
      have c2: "connections ?s2 = filter (\<lambda>e. fst e \<notin> {c}) (connections s)"
        by (simp add: delete_as_filter)
      have sub: "set (deadIds (connections ?s2)) \<subseteq> set (deadIds (connections s))"
        unfolding c2 by (rule deadIds_filter)
      show ?thesis
      proof (intro exI[of _ "insert c (set (deadIds (connections ?s2)))"] conjI)
        show "c \<in> insert c (set (deadIds (connections ?s2)))" by simp
        show "insert c (set (deadIds (connections ?s2)))
                \<subseteq> insert c (set (deadIds (connections s)))"
          using sub by auto
        show "connections (removeConnection c now s) =
                filter (\<lambda>e. fst e \<notin> insert c (set (deadIds (connections ?s2)))) (connections s)"
          unfolding eq unfolding c2 by (auto intro: filter_cong)
      qed
    next
      case False
      then show ?thesis using Some a
        by (intro exI[of _ "{c}"]) (simp add: removeConnection_more delete_as_filter)
    qed
  qed
qed

lemma map_of_Some_key: "map_of al k = Some v \<Longrightarrow> k \<in> fst ` set al"
  by (metis map_of_eq_None_iff option.distinct(1))

lemma detach_wire:
  "wire (detach c s) = wire s @ (if c \<in> fst ` set (connections s) then [Close c] else [])"
  by (auto simp: detach_def clearHeartbeat_def closeConnection_def map_of_eq_None_iff
           split: option.splits dest: map_of_Some_key)

lemma deliveries_offline: "list_all prune_io (deliveries (Presence u ''offline'' now) conns)"
  by (induction conns) (auto simp: deliveries_def)

lemma wire_extension:
  "\<exists>d. wire (broadcastMessage ev now s) = wire s @ deliveries ev (connections s) @ d \<and>
       list_all prune_io d"
  "\<exists>d. wire (removeDead dead now s) = wire s @ d \<and> list_all prune_io d"
  "\<exists>d. wire (removeConnection c now s) = wire s @ d \<and> list_all prune_io d"
proof (induction ev now s and dead now s and c now s rule: room_induct)
  case (broadcast ev now s)
  then show ?case by (auto simp: broadcastMessage_unfold)
next
  case (nil now s)
  show ?case by simp
next
  case (cons c rest now s)
  from cons(1) obtain d1 where d1: "wire (removeConnection c now s) = wire s @ d1"
    "list_all prune_io d1" by blast
  from cons(2) obtain d2 where d2:
    "wire (removeDead rest now (removeConnection c now s)) = wire (removeConnection c now s) @ d2"
    "list_all prune_io d2" by blast
  show ?case
    by (intro exI[of _ "d1 @ d2"]) (simp add: d1 d2)
next
  case (remove c now s)
  let ?cl = "if c \<in> fst ` set (connections s) then [Close c] else []"
  have cl: "list_all prune_io ?cl" by simp
  show ?case
  proof (cases "owner c s")
    case None
    then show ?thesis
      by (intro exI[of _ ?cl]) (simp add: removeConnection_none detach_wire)
  next
    case (Some a)
    obtain u ids where a: "a = (u, ids)" by (cases a)
    show ?thesis
    proof (cases "ids - {c} = {}")
      case True
      let ?s2 = "(detach c s)\<lparr>userConnections := AList.delete u (userConnections s)\<rparr>"
      from remove[of u ids] Some a True obtain d where d:
        "wire (broadcastMessage (Presence u ''offline'' now) now ?s2) =
           wire ?s2 @ deliveries (Presence u ''offline'' now) (connections ?s2) @ d"
        "list_all prune_io d" by blast
      show ?thesis
        by (intro exI[of _ "?cl @ deliveries (Presence u ''offline'' now) (connections ?s2) @ d"])
           (use Some a True d deliveries_offline in \<open>simp add: removeConnection_last detach_wire\<close>)
    next
      case False
      then show ?thesis using Some a
        by (intro exI[of _ ?cl]) (simp add: removeConnection_more detach_wire)
    qed
  qed
qed

subsection \<open>The registry invariant\<close>

lemma set_delete: "set (AList.delete k al) = {e \<in> set al. fst e \<noteq> k}"
  by (induction al) auto

lemma set_update_distinct:
  "distinct (map fst al) \<Longrightarrow> (k, v0) \<in> set al \<Longrightarrow>
   set (AList.update k v al) = insert (k, v) (set al - {(k, v0)})"
  by (induction al) (auto simp: rev_image_eqI)

lemma owner_Some: "owner c s = Some (u, ids) \<Longrightarrow> (u, ids) \<in> set (userConnections s) \<and> c \<in> ids"
  unfolding owner_def using find_owner_mem by fast

lemma owner_None: "owner c s = None \<Longrightarrow> c \<notin> \<Union> (snd ` set (userConnections s))"
  unfolding owner_def by (auto simp: find_None_iff)

lemma registry_ok_none:
  assumes "registry_ok s" "owner c s = None"
  shows "registry_ok (detach c s)"
proof -
  have "c \<notin> fst ` set (connections s)"
    using assms owner_None[of c s] by (simp add: registry_ok_def)
  then show ?thesis using assms(1)
    by (auto simp: registry_ok_def set_delete)
qed

lemma registry_ok_more:
  assumes "registry_ok s" "owner c s = Some (u, ids)"
  shows "registry_ok ((detach c s)\<lparr>userConnections :=
           AList.update u (ids - {c}) (userConnections s)\<rparr>)"
proof -
  let ?ucs = "userConnections s"
  from assms(2) have mem: "(u, ids) \<in> set ?ucs" "c \<in> ids" using owner_Some by auto
  from assms(1) have d: "distinct (map fst ?ucs)"
    and disj: "\<And>e1 e2. e1 \<in> set ?ucs \<Longrightarrow> e2 \<in> set ?ucs \<Longrightarrow> fst e1 \<noteq> fst e2
                 \<Longrightarrow> snd e1 \<inter> snd e2 = {}"
    and keys: "fst ` set (connections s) = \<Union> (snd ` set ?ucs)"
    by (auto simp: registry_ok_def)
  have uniq: "\<And>e. e \<in> set ?ucs \<Longrightarrow> fst e = u \<Longrightarrow> e = (u, ids)"
    using d mem(1) by (metis eq_key_imp_eq_value prod.collapse)
  have other: "\<And>e. e \<in> set ?ucs \<Longrightarrow> e \<noteq> (u, ids) \<Longrightarrow> c \<notin> snd e"
  proof -
    fix e assume e: "e \<in> set ?ucs" "e \<noteq> (u, ids)"
    then have "fst e \<noteq> u" using uniq by blast
    then have "snd e \<inter> ids = {}" using disj[OF e(1) mem(1)] by simp
    then show "c \<notin> snd e" using mem(2) by blast
  qed
  have set': "set (AList.update u (ids - {c}) ?ucs) = insert (u, ids - {c}) (set ?ucs - {(u, ids)})"
    by (rule set_update_distinct[OF d mem(1)])
  have un: "\<Union> (snd ` set (AList.update u (ids - {c}) ?ucs)) = \<Union> (snd ` set ?ucs) - {c}"
    unfolding set'
  proof (intro set_eqI iffI)
    fix x assume "x \<in> \<Union> (snd ` insert (u, ids - {c}) (set ?ucs - {(u, ids)}))"
    then consider "x \<in> ids - {c}" | e where "e \<in> set ?ucs" "e \<noteq> (u, ids)" "x \<in> snd e"
      by auto
    then show "x \<in> \<Union> (snd ` set ?ucs) - {c}"
    proof cases
      case 1
      then show ?thesis using mem(1) by force
    next
      case 2
      then have "x \<noteq> c" using other by blast
      with 2 show ?thesis by blast
    qed
  next
    fix x assume "x \<in> \<Union> (snd ` set ?ucs) - {c}"
    then obtain e where e: "e \<in> set ?ucs" "x \<in> snd e" "x \<noteq> c" by auto
    show "x \<in> \<Union> (snd ` insert (u, ids - {c}) (set ?ucs - {(u, ids)}))"
    proof (cases "e = (u, ids)")
      case True
      then have "x \<in> ids - {c}" using e by auto
      then show ?thesis by simp
    next
      case False
      then have "e \<in> set ?ucs - {(u, ids)}" using e by simp
      then show ?thesis using e(2) by blast
    qed
  qed
  have k': "fst ` set (AList.delete c (connections s)) = fst ` set (connections s) - {c}"
    by (auto simp: set_delete)
  have disj': "\<forall>e1 \<in> set (AList.update u (ids - {c}) ?ucs).
                \<forall>e2 \<in> set (AList.update u (ids - {c}) ?ucs).
                  fst e1 \<noteq> fst e2 \<longrightarrow> snd e1 \<inter> snd e2 = {}"
    unfolding set'
  proof (intro ballI impI)
    fix e1 e2
    assume e1: "e1 \<in> insert (u, ids - {c}) (set ?ucs - {(u, ids)})"
      and e2: "e2 \<in> insert (u, ids - {c}) (set ?ucs - {(u, ids)})"
      and ne: "fst e1 \<noteq> fst e2"
    have ex: "\<exists>f \<in> set ?ucs. fst f = fst e \<and> snd e \<subseteq> snd f"
      if "e \<in> insert (u, ids - {c}) (set ?ucs - {(u, ids)})" for e
    proof (cases "e = (u, ids - {c})")
      case True
      then show ?thesis using mem(1) by (intro bexI[of _ "(u, ids)"]) auto
    next
      case False
      then show ?thesis using that by (intro bexI[of _ e]) auto
    qed
    obtain f1 where f1: "f1 \<in> set ?ucs" "fst f1 = fst e1" "snd e1 \<subseteq> snd f1"
      using ex[OF e1] by blast
    obtain f2 where f2: "f2 \<in> set ?ucs" "fst f2 = fst e2" "snd e2 \<subseteq> snd f2"
      using ex[OF e2] by blast
    have "snd f1 \<inter> snd f2 = {}" using disj[OF f1(1) f2(1)] ne f1(2) f2(2) by simp
    then show "snd e1 \<inter> snd e2 = {}" using f1(3) f2(3) by blast
  qed
  show ?thesis
    unfolding registry_ok_def using un k' keys disj' d
    by (simp add: distinct_update)
qed

lemma registry_ok_last:
  assumes "registry_ok s" "owner c s = Some (u, ids)" "ids - {c} = {}"
  shows "registry_ok ((detach c s)\<lparr>userConnections := AList.delete u (userConnections s)\<rparr>)"
proof -
  let ?ucs = "userConnections s"
  from assms(2) have mem: "(u, ids) \<in> set ?ucs" "c \<in> ids" using owner_Some by auto
  with assms(3) have ids: "ids = {c}" by auto
  from assms(1) have d: "distinct (map fst ?ucs)"
    and disj: "\<And>e1 e2. e1 \<in> set ?ucs \<Longrightarrow> e2 \<in> set ?ucs \<Longrightarrow> fst e1 \<noteq> fst e2
                 \<Longrightarrow> snd e1 \<inter> snd e2 = {}"
    and keys: "fst ` set (connections s) = \<Union> (snd ` set ?ucs)"
    by (auto simp: registry_ok_def)
  have uniq: "\<And>e. e \<in> set ?ucs \<Longrightarrow> fst e = u \<Longrightarrow> e = (u, ids)"
    using d mem(1) by (metis eq_key_imp_eq_value prod.collapse)
  have other: "\<And>e. e \<in> set ?ucs \<Longrightarrow> fst e \<noteq> u \<Longrightarrow> c \<notin> snd e"
  proof -
    fix e assume e: "e \<in> set ?ucs" "fst e \<noteq> u"
    then have "snd e \<inter> ids = {}" using disj[OF e(1) mem(1)] by simp
    then show "c \<notin> snd e" using mem(2) by blast
  qed
  have un: "\<Union> (snd ` set (AList.delete u ?ucs)) = \<Union> (snd ` set ?ucs) - {c}"
    unfolding set_delete
  proof (intro set_eqI iffI)
    fix x assume "x \<in> \<Union> (snd ` {e \<in> set ?ucs. fst e \<noteq> u})"
    then obtain e where e: "e \<in> set ?ucs" "fst e \<noteq> u" "x \<in> snd e" by auto
    then have "x \<noteq> c" using other by blast
    with e show "x \<in> \<Union> (snd ` set ?ucs) - {c}" by blast
  next
    fix x assume "x \<in> \<Union> (snd ` set ?ucs) - {c}"
    then obtain e where e: "e \<in> set ?ucs" "x \<in> snd e" "x \<noteq> c" by auto
    have "fst e \<noteq> u"
    proof
      assume "fst e = u"
      then have "e = (u, ids)" using uniq e(1) by blast
      then show False using e ids by simp
    qed
    then show "x \<in> \<Union> (snd ` {e \<in> set ?ucs. fst e \<noteq> u})" using e by blast
  qed
  have k': "fst ` set (AList.delete c (connections s)) = fst ` set (connections s) - {c}"
    by (auto simp: set_delete)
  have disj': "\<forall>e1 \<in> set (AList.delete u ?ucs). \<forall>e2 \<in> set (AList.delete u ?ucs).
                  fst e1 \<noteq> fst e2 \<longrightarrow> snd e1 \<inter> snd e2 = {}"
    unfolding set_delete using disj by auto
  show ?thesis
    unfolding registry_ok_def using un k' keys disj' d
    by (simp add: distinct_delete)
qed

lemma registry_ok_wire [simp]: "registry_ok (s\<lparr>wire := w\<rparr>) = registry_ok s"
  by (simp add: registry_ok_def)

lemma registry_ok_preserved:
  "registry_ok s \<Longrightarrow> registry_ok (broadcastMessage ev now s)"
  "registry_ok s \<Longrightarrow> registry_ok (removeDead dead now s)"
  "registry_ok s \<Longrightarrow> registry_ok (removeConnection c now s)"
proof (induction ev now s and dead now s and c now s rule: room_induct)
  case (broadcast ev now s)
  then show ?case by (simp add: broadcastMessage_unfold)
next
  case (nil now s)
  then show ?case by simp
next
  case (cons c rest now s)
  then show ?case by simp
next
  case (remove c now s)
  show ?case
  proof (cases "owner c s")
    case None
    then show ?thesis using remove(2) by (simp add: removeConnection_none registry_ok_none)
  next
    case (Some a)
    obtain u ids where a: "a = (u, ids)" by (cases a)
    show ?thesis
    proof (cases "ids - {c} = {}")
      case True
      then show ?thesis
        using Some a remove(1)[of u ids] remove(2) registry_ok_last[of s c u ids]
        by (simp add: removeConnection_last)
    next
      case False
      then show ?thesis
        using Some a remove(2) registry_ok_more[of s c u ids]
        by (simp add: removeConnection_more)
    qed
  qed
qed

lemma keys_update: "fst ` set (AList.update k v al) = insert k (fst ` set al)"
  by (induction al) auto

lemma set_update_new:
  "map_of al k = None \<Longrightarrow> set (AList.update k v al) = insert (k, v) (set al)"
  by (induction al) auto

lemma registry_ok_register:
  assumes ok: "registry_ok s" and fresh: "c \<notin> fst ` set (connections s)"
  shows "registry_ok (s\<lparr>connections := AList.update c w (connections s),
                          userConnections :=
                            AList.update u (insert c (case map_of (userConnections s) u of
                                                        None \<Rightarrow> {} | Some ids \<Rightarrow> ids))
                              (userConnections s)\<rparr>)"
proof -
  let ?ucs = "userConnections s"
  define old where "old = (case map_of ?ucs u of None \<Rightarrow> {} | Some ids \<Rightarrow> ids)"
  from ok have d: "distinct (map fst ?ucs)"
    and disj: "\<And>e1 e2. e1 \<in> set ?ucs \<Longrightarrow> e2 \<in> set ?ucs \<Longrightarrow> fst e1 \<noteq> fst e2
                 \<Longrightarrow> snd e1 \<inter> snd e2 = {}"
    and keys: "fst ` set (connections s) = \<Union> (snd ` set ?ucs)"
    by (auto simp: registry_ok_def)
  have nowhere: "\<And>e. e \<in> set ?ucs \<Longrightarrow> c \<notin> snd e" using fresh keys by blast
  have set': "set (AList.update u (insert c old) ?ucs)
                = insert (u, insert c old) {e \<in> set ?ucs. fst e \<noteq> u}"
  proof (cases "map_of ?ucs u")
    case None
    then have "\<And>e. e \<in> set ?ucs \<Longrightarrow> fst e \<noteq> u"
      by (metis map_of_eq_None_iff image_eqI)
    then have "{e \<in> set ?ucs. fst e \<noteq> u} = set ?ucs" by blast
    then show ?thesis using None by (simp add: set_update_new old_def)
  next
    case (Some ids)
    then have m: "(u, ids) \<in> set ?ucs" by (rule map_of_SomeD)
    have uniq: "e = (u, ids)" if "e \<in> set ?ucs" "fst e = u" for e
      using d m that by (metis eq_key_imp_eq_value prod.collapse)
    have "set ?ucs - {(u, ids)} = {e \<in> set ?ucs. fst e \<noteq> u}"
    proof (intro set_eqI iffI)
      fix e assume "e \<in> set ?ucs - {(u, ids)}"
      then have e: "e \<in> set ?ucs" "e \<noteq> (u, ids)" by simp_all
      then have "fst e \<noteq> u" using uniq by blast
      with e show "e \<in> {e \<in> set ?ucs. fst e \<noteq> u}" by simp
    next
      fix e assume "e \<in> {e \<in> set ?ucs. fst e \<noteq> u}"
      then have e: "e \<in> set ?ucs" "fst e \<noteq> u" by simp_all
      have "e \<noteq> (u, ids)" using e(2) by auto
      with e show "e \<in> set ?ucs - {(u, ids)}" by simp
    qed
    then show ?thesis using Some set_update_distinct[OF d m] by (simp add: old_def)
  qed
  have old: "old \<subseteq> \<Union> (snd ` set ?ucs)" "\<And>e. e \<in> set ?ucs \<Longrightarrow> fst e \<noteq> u \<Longrightarrow> snd e \<inter> old = {}"
  proof -
    show "old \<subseteq> \<Union> (snd ` set ?ucs)"
      unfolding old_def by (cases "map_of ?ucs u") (auto dest!: map_of_SomeD)
    fix e assume e: "e \<in> set ?ucs" "fst e \<noteq> u"
    show "snd e \<inter> old = {}"
    proof (cases "map_of ?ucs u")
      case None
      then show ?thesis by (simp add: old_def)
    next
      case (Some ids)
      then have "(u, ids) \<in> set ?ucs" by (rule map_of_SomeD)
      from disj[OF e(1) this] e(2) Some show ?thesis by (simp add: old_def)
    qed
  qed
  have covered: "\<And>x. x \<in> \<Union> (snd ` set ?ucs) \<Longrightarrow>
                   x \<in> old \<or> (\<exists>e \<in> set ?ucs. fst e \<noteq> u \<and> x \<in> snd e)"
  proof -
    fix x assume "x \<in> \<Union> (snd ` set ?ucs)"
    then obtain e where e: "e \<in> set ?ucs" "x \<in> snd e" by blast
    show "x \<in> old \<or> (\<exists>e \<in> set ?ucs. fst e \<noteq> u \<and> x \<in> snd e)"
    proof (cases "fst e = u")
      case True
      then have "map_of ?ucs u = Some (snd e)" using d e(1) by (metis map_of_is_SomeI prod.collapse)
      then show ?thesis using e(2) by (simp add: old_def)
    next
      case False
      then show ?thesis using e by blast
    qed
  qed
  have un: "\<Union> (snd ` set (AList.update u (insert c old) ?ucs)) = insert c (\<Union> (snd ` set ?ucs))"
    unfolding set'
  proof (intro set_eqI iffI)
    fix x assume "x \<in> \<Union> (snd ` insert (u, insert c old) {e \<in> set ?ucs. fst e \<noteq> u})"
    then consider "x = c" | "x \<in> old" | e where "e \<in> set ?ucs" "x \<in> snd e" by auto
    then show "x \<in> insert c (\<Union> (snd ` set ?ucs))"
    proof cases
      case 1
      then show ?thesis by simp
    next
      case 2
      then show ?thesis using old(1) by blast
    next
      case 3
      then show ?thesis by blast
    qed
  next
    fix x assume "x \<in> insert c (\<Union> (snd ` set ?ucs))"
    then consider "x = c" | "x \<in> \<Union> (snd ` set ?ucs)" by blast
    then show "x \<in> \<Union> (snd ` insert (u, insert c old) {e \<in> set ?ucs. fst e \<noteq> u})"
    proof cases
      case 1
      then show ?thesis by simp
    next
      case 2
      from covered[OF this] show ?thesis
      proof
        assume "x \<in> old"
        then show ?thesis by simp
      next
        assume "\<exists>e \<in> set ?ucs. fst e \<noteq> u \<and> x \<in> snd e"
        then obtain e where "e \<in> set ?ucs" "fst e \<noteq> u" "x \<in> snd e" by blast
        then have "e \<in> insert (u, insert c old) {e \<in> set ?ucs. fst e \<noteq> u}" by simp
        then show ?thesis using \<open>x \<in> snd e\<close> by blast
      qed
    qed
  qed
  have disj': "\<forall>e1 \<in> set (AList.update u (insert c old) ?ucs).
                \<forall>e2 \<in> set (AList.update u (insert c old) ?ucs).
                  fst e1 \<noteq> fst e2 \<longrightarrow> snd e1 \<inter> snd e2 = {}"
    unfolding set'
  proof (intro ballI impI)
    fix e1 e2
    assume e1: "e1 \<in> insert (u, insert c old) {e \<in> set ?ucs. fst e \<noteq> u}"
      and e2: "e2 \<in> insert (u, insert c old) {e \<in> set ?ucs. fst e \<noteq> u}"
      and ne: "fst e1 \<noteq> fst e2"
    have new: "snd e \<inter> insert c old = {}" if "e \<in> set ?ucs" "fst e \<noteq> u" for e
      using old(2)[OF that] nowhere[OF that(1)] by blast
    consider "e1 = (u, insert c old)" "e2 \<in> set ?ucs" "fst e2 \<noteq> u"
      | "e2 = (u, insert c old)" "e1 \<in> set ?ucs" "fst e1 \<noteq> u"
      | "e1 \<in> set ?ucs" "e2 \<in> set ?ucs"
      using e1 e2 ne by auto
    then show "snd e1 \<inter> snd e2 = {}"
    proof cases
      case 1
      then show ?thesis using new[of e2] by auto
    next
      case 2
      then show ?thesis using new[of e1] by auto
    next
      case 3
      then show ?thesis using disj ne by blast
    qed
  qed
  show ?thesis
    unfolding registry_ok_def using un keys disj' d
    by (simp add: distinct_update keys_update old_def)
qed


lemma registry_ok_irrelevant [simp]:
  "registry_ok (s\<lparr>heartbeatIntervals := h\<rparr>) = registry_ok s"
  "registry_ok (s\<lparr>typingUsers := t\<rparr>) = registry_ok s"
  by (simp_all add: registry_ok_def)

lemma registry_ok_upgrade:
  assumes "registry_ok s" "connectionId \<notin> fst ` set (connections s)"
  shows "registry_ok (snd (handleWebSocketUpgrade request connectionId interval s))"
proof (cases "upgradeHeader request \<noteq> Some ''websocket'' \<or> getUserIdFromRequest request = None")
  case True
  then show ?thesis using assms(1) by (auto simp: handleWebSocketUpgrade_def)
next
  case False
  then obtain u where u: "getUserIdFromRequest request = Some u" by auto
  have "snd (handleWebSocketUpgrade request connectionId interval s) =
        (s\<lparr>connections := AList.update connectionId accepted (connections s),
           userConnections :=
             AList.update u (insert connectionId (case map_of (userConnections s) u of
                                                    None \<Rightarrow> {} | Some ids \<Rightarrow> ids))
               (userConnections s)\<rparr>)
         \<lparr>heartbeatIntervals := AList.update connectionId interval (heartbeatIntervals s)\<rparr>"
    using False u
    by (cases "map_of (userConnections s) u")
       (simp_all add: handleWebSocketUpgrade_def setupHeartbeat_def Let_def update_conv')
  then show ?thesis using registry_ok_register[OF assms] by simp
qed

lemma registry_ok_transport:
  "registry_ok s \<Longrightarrow> registry_ok (transportChange c ws s)"
proof -
  have "fst ` set (map (\<lambda>(k, w). if k = c then (k, ws) else (k, w)) al) = fst ` set al" for al :: "(string \<times> websocket) list"
    by (induction al) auto
  then show "registry_ok s \<Longrightarrow> registry_ok (transportChange c ws s)"
    by (simp add: registry_ok_def transportChange_def)
qed

lemma registry_ok_tick:
  "registry_ok s \<Longrightarrow> registry_ok (heartbeatTick c now s)"
  by (auto simp: heartbeatTick_def registry_ok_preserved(3) split: option.splits)

lemma registry_ok_message:
  "registry_ok s \<Longrightarrow> registry_ok (snd (handleMessageRequest request uuid now s))"
  by (auto simp: handleMessageRequest_def registry_ok_preserved(1) split: option.splits)

lemma registry_ok_typing:
  "registry_ok s \<Longrightarrow> registry_ok (snd (handleTypingRequest request now s))"
  by (auto simp: handleTypingRequest_def Let_def registry_ok_preserved(1) split: option.splits)

lemma registry_ok_presence:
  "registry_ok s \<Longrightarrow> registry_ok (snd (handlePresenceRequest request now s))"
  by (auto simp: handlePresenceRequest_def registry_ok_preserved(1) split: option.splits)

lemma registry_ok_onMessage:
  "registry_ok s \<Longrightarrow> registry_ok (onMessage frame userId uuid now s)"
  by (cases frame)
     (auto simp: onMessage_def handleClientMessage_def handleTypingIndicator_def
                 registry_ok_preserved(1))

lemma registry_ok_step:
  assumes "registry_ok s" "fresh_ids [op] s"
  shows "registry_ok (room_step op s)"
  using assms
  by (cases op)
     (simp_all add: registry_ok_upgrade registry_ok_preserved(3) registry_ok_tick
        registry_ok_message registry_ok_typing registry_ok_presence registry_ok_onMessage
        registry_ok_transport)

lemma fresh_ids_Cons:
  "fresh_ids (op # ops) s = (fresh_ids [op] s \<and> fresh_ids ops (room_step op s))"
  by (cases op) simp_all

lemma registry_ok_run:
  "registry_ok s \<Longrightarrow> fresh_ids ops s \<Longrightarrow> registry_ok (room_run ops s)"
proof (induction ops arbitrary: s)
  case Nil
  then show ?case by simp
next
  case (Cons op ops)
  from Cons.prems(2) have f: "fresh_ids [op] s" "fresh_ids ops (room_step op s)"
    using fresh_ids_Cons[of op ops s] by simp_all
  have "registry_ok (room_step op s)" by (rule registry_ok_step[OF Cons.prems(1) f(1)])
  from Cons.IH[OF this f(2)] show ?case by simp
qed

lemma registry_ok_unique_owner:
  assumes "registry_ok s"
  shows "c \<in> fst ` set (connections s) \<longleftrightarrow>
         (\<exists>!u. \<exists>ids. (u, ids) \<in> set (userConnections s) \<and> c \<in> ids)"
proof
  assume "c \<in> fst ` set (connections s)"
  then obtain e where e: "e \<in> set (userConnections s)" "c \<in> snd e"
    using assms by (auto simp: registry_ok_def)
  show "\<exists>!u. \<exists>ids. (u, ids) \<in> set (userConnections s) \<and> c \<in> ids"
  proof (rule ex1I[of _ "fst e"])
    show "\<exists>ids. (fst e, ids) \<in> set (userConnections s) \<and> c \<in> ids"
      using e by (intro exI[of _ "snd e"]) simp
    fix u assume "\<exists>ids. (u, ids) \<in> set (userConnections s) \<and> c \<in> ids"
    then obtain ids where i: "(u, ids) \<in> set (userConnections s)" "c \<in> ids" by blast
    show "u = fst e"
    proof (rule ccontr)
      assume "u \<noteq> fst e"
      then have "snd (u, ids) \<inter> snd e = {}"
        using assms i(1) e(1) unfolding registry_ok_def by (metis fst_conv)
      then show False using i(2) e(2) by auto
    qed
  qed
next
  assume "\<exists>!u. \<exists>ids. (u, ids) \<in> set (userConnections s) \<and> c \<in> ids"
  then obtain u ids where "(u, ids) \<in> set (userConnections s)" "c \<in> ids" by blast
  then have "c \<in> \<Union> (snd ` set (userConnections s))" by force
  then show "c \<in> fst ` set (connections s)" using assms by (simp add: registry_ok_def)
qed


text \<open>
  The paths that the router's endpoints put on the requests they forward are not among
  those the objects dispatch on.
\<close>

lemma message_endpoint_path_not_dispatched:
  "room_fetch (messageRequestPath chatId) = NotFound"
  by (simp add: room_fetch_def messageRequestPath_def)

lemma status_endpoint_path_not_dispatched:
  "presence_fetch (''/presence/'' @ userId) = PresenceNotFound"
  by (simp add: presence_fetch_def)

text \<open>\<open>connections\<close> stays a \<open>Map\<close>: no operation gives a key a second entry.\<close>

lemma connections_distinct_removeConnection:
  "distinct (map fst (connections s)) \<Longrightarrow>
   distinct (map fst (connections (removeConnection c now s)))"
  using connections_pruned(3)[of c s now] by (auto simp: distinct_map_filter)

lemma connections_distinct_broadcast:
  "distinct (map fst (connections s)) \<Longrightarrow>
   distinct (map fst (connections (broadcastMessage ev now s)))"
  by (simp add: connections_pruned(1) distinct_map_filter)

lemma connections_distinct_step:
  assumes "distinct (map fst (connections s))"
  shows "distinct (map fst (connections (room_step op s)))"
proof (cases op)
  case (Subscribe request c interval)
  then show ?thesis using assms
    by (auto simp: handleWebSocketUpgrade_def setupHeartbeat_def Let_def distinct_update
             split: option.splits)
next
  case (HeartbeatTick c now)
  then show ?thesis using assms connections_distinct_removeConnection[OF assms]
    by (auto simp: heartbeatTick_def split: option.splits)
next
  case (PublishMessage request uuid now)
  then show ?thesis using assms
    by (auto simp: handleMessageRequest_def connections_distinct_broadcast split: option.splits)
next
  case (SetTyping request now)
  then show ?thesis using assms
    by (auto simp: handleTypingRequest_def Let_def connections_distinct_broadcast
             split: option.splits)
next
  case (SetPresence request now)
  then show ?thesis using assms
    by (auto simp: handlePresenceRequest_def connections_distinct_broadcast split: option.splits)
next
  case (SocketMessage frame userId uuid now)
  then show ?thesis using assms
    by (cases frame)
       (auto simp: onMessage_def handleClientMessage_def handleTypingIndicator_def
                   connections_distinct_broadcast)
next
  case (TransportChange c ws)
  have "map fst (map (\<lambda>(k, w). if k = c then (k, ws) else (k, w)) al) = map fst al"
    for al :: "(string \<times> websocket) list"
    by (induction al) auto
  then have "map fst (connections (transportChange c ws s)) = map fst (connections s)"
    by (simp add: transportChange_def del: map_map)
  then show ?thesis using assms TransportChange by simp
qed (simp_all add: assms connections_distinct_removeConnection)

lemma connections_distinct_run:
  "distinct (map fst (connections s)) \<Longrightarrow> distinct (map fst (connections (room_run ops s)))"
  by (induction ops arbitrary: s) (simp_all add: connections_distinct_step)

subsection \<open>The heartbeat timers\<close>

lemma map_of_filter_key:
  "map_of (filter (\<lambda>e. Q (fst e)) al) k = (if Q k then map_of al k else None)"
  by (induction al) auto

lemma cleared_cleared: "cleared R2 (cleared R1 timers) = cleared (R1 \<union> R2) timers"
proof -
  have "map_of (cleared R1 timers) k =
          (if k \<notin> R1 \<or> map_of timers k = Some 0 then map_of timers k else None)" for k
    unfolding cleared_def
    by (rule map_of_filter_key[of "\<lambda>k. k \<notin> R1 \<or> map_of timers k = Some 0"])
  then show ?thesis
    unfolding cleared_def[of R2] unfolding cleared_def[of R1] cleared_def[of "R1 \<union> R2"]
    by (auto intro: filter_cong)
qed

lemma cleared_distinct:
  "distinct (map fst timers) \<Longrightarrow>
   cleared R timers = filter (\<lambda>(k, i). k \<notin> R \<or> i = 0) timers"
  unfolding cleared_def
  by (rule filter_cong) (auto simp: map_of_eq_Some_iff dest: eq_key_imp_eq_value)

lemma cleared_one:
  "cleared {c} timers = (if map_of timers c = Some 0 then timers else AList.delete c timers)"
proof (cases "map_of timers c = Some 0")
  case True
  then have "filter (\<lambda>e. fst e \<notin> {c} \<or> map_of timers (fst e) = Some 0) timers = timers"
    by (intro filter_True) auto
  then show ?thesis using True by (simp add: cleared_def)
next
  case False
  then have "filter (\<lambda>e. fst e \<notin> {c} \<or> map_of timers (fst e) = Some 0) timers
               = filter (\<lambda>e. fst e \<notin> {c}) timers"
    by (intro filter_cong) auto
  then show ?thesis using False by (simp add: cleared_def delete_as_filter)
qed

lemma clearHeartbeat_cleared:
  "heartbeatIntervals (clearHeartbeat c s) = cleared {c} (heartbeatIntervals s)"
  by (auto simp: clearHeartbeat_def cleared_one delete_absent split: option.splits)

lemma detach_heartbeats:
  "heartbeatIntervals (detach c s) = cleared {c} (heartbeatIntervals s)"
proof -
  have "heartbeatIntervals (closeConnection c s) = heartbeatIntervals s"
    by (simp add: closeConnection_def split: option.splits)
  then show ?thesis by (simp add: detach_def clearHeartbeat_cleared)
qed

lemma heartbeats_pruned:
  "heartbeatIntervals (broadcastMessage ev now s) =
     cleared (set (deadIds (connections s))) (heartbeatIntervals s)"
  "\<exists>R. set dead \<subseteq> R \<and> R \<subseteq> set dead \<union> set (deadIds (connections s)) \<and>
       heartbeatIntervals (removeDead dead now s) = cleared R (heartbeatIntervals s)"
  "\<exists>R. c \<in> R \<and> R \<subseteq> insert c (set (deadIds (connections s))) \<and>
       heartbeatIntervals (removeConnection c now s) = cleared R (heartbeatIntervals s)"
proof (induction ev now s and dead now s and c now s rule: room_induct)
  case (broadcast ev now s)
  then obtain R where R: "set (deadIds (connections s)) \<subseteq> R"
      "R \<subseteq> set (deadIds (connections s)) \<union> set (deadIds (connections s))"
      "heartbeatIntervals (broadcastMessage ev now s) = cleared R (heartbeatIntervals s)"
    by (auto simp: broadcastMessage_unfold)
  then have "R = set (deadIds (connections s))" by blast
  with R(3) show ?case by simp
next
  case (nil now s)
  have "cleared {} (heartbeatIntervals s) = heartbeatIntervals s"
    by (simp add: cleared_def)
  then show ?case by (intro exI[of _ "{}"]) simp
next
  case (cons c rest now s)
  let ?s1 = "removeConnection c now s"
  from cons(1) obtain R1 where R1: "c \<in> R1" "R1 \<subseteq> insert c (set (deadIds (connections s)))"
      "heartbeatIntervals ?s1 = cleared R1 (heartbeatIntervals s)" by blast
  from cons(2) obtain R2 where R2: "set rest \<subseteq> R2"
      "R2 \<subseteq> set rest \<union> set (deadIds (connections ?s1))"
      "heartbeatIntervals (removeDead rest now ?s1) = cleared R2 (heartbeatIntervals ?s1)"
    by blast
  obtain R' where "connections ?s1 = filter (\<lambda>e. fst e \<notin> R') (connections s)"
    using connections_pruned(3)[of c s now] by blast
  then have sub: "set (deadIds (connections ?s1)) \<subseteq> set (deadIds (connections s))"
    by (simp add: deadIds_filter)
  show ?case
  proof (intro exI[of _ "R1 \<union> R2"] conjI)
    show "set (c # rest) \<subseteq> R1 \<union> R2" using R1(1) R2(1) by auto
    show "R1 \<union> R2 \<subseteq> set (c # rest) \<union> set (deadIds (connections s))"
      using R1(2) R2(2) sub by auto
    show "heartbeatIntervals (removeDead (c # rest) now s) =
            cleared (R1 \<union> R2) (heartbeatIntervals s)"
      by (simp add: R2(3) R1(3) cleared_cleared)
  qed
next
  case (remove c now s)
  show ?case
  proof (cases "owner c s")
    case None
    then show ?thesis
      by (intro exI[of _ "{c}"]) (simp add: removeConnection_none detach_heartbeats)
  next
    case (Some a)
    obtain u ids where a: "a = (u, ids)" by (cases a)
    show ?thesis
    proof (cases "ids - {c} = {}")
      case True
      let ?s2 = "(detach c s)\<lparr>userConnections := AList.delete u (userConnections s)\<rparr>"
      have eq: "heartbeatIntervals (removeConnection c now s) =
          cleared (set (deadIds (connections ?s2))) (heartbeatIntervals ?s2)"
        using remove[of u ids] Some a True by (simp add: removeConnection_last)
      have c2: "connections ?s2 = filter (\<lambda>e. fst e \<notin> {c}) (connections s)"
        by (simp add: delete_as_filter)
      have sub: "set (deadIds (connections ?s2)) \<subseteq> set (deadIds (connections s))"
        unfolding c2 by (rule deadIds_filter)
      have h2: "heartbeatIntervals ?s2 = cleared {c} (heartbeatIntervals s)"
        by (simp add: detach_heartbeats)
      show ?thesis
      proof (intro exI[of _ "insert c (set (deadIds (connections ?s2)))"] conjI)
        show "c \<in> insert c (set (deadIds (connections ?s2)))" by simp
        show "insert c (set (deadIds (connections ?s2)))
                \<subseteq> insert c (set (deadIds (connections s)))"
          using sub by auto
        show "heartbeatIntervals (removeConnection c now s) =
                cleared (insert c (set (deadIds (connections ?s2)))) (heartbeatIntervals s)"
          unfolding eq h2 by (simp add: cleared_cleared)
      qed
    next
      case False
      then show ?thesis using Some a
        by (intro exI[of _ "{c}"]) (simp add: removeConnection_more detach_heartbeats)
    qed
  qed
qed

lemma deadIds_delete:
  "insert c (set (deadIds (AList.delete c conns))) = insert c (set (deadIds conns))"
  by (auto simp: deadIds_def set_delete)

lemma users_keys_subset:
  "fst ` set (userConnections (broadcastMessage ev now s)) \<subseteq> fst ` set (userConnections s)"
  "fst ` set (userConnections (removeDead dead now s)) \<subseteq> fst ` set (userConnections s)"
  "fst ` set (userConnections (removeConnection c now s)) \<subseteq> fst ` set (userConnections s)"
proof (induction ev now s and dead now s and c now s rule: room_induct)
  case (broadcast ev now s)
  then show ?case by (simp add: broadcastMessage_unfold)
next
  case (nil now s)
  show ?case by simp
next
  case (cons c rest now s)
  then show ?case by auto
next
  case (remove c now s)
  show ?case
  proof (cases "owner c s")
    case None
    then show ?thesis by (simp add: removeConnection_none)
  next
    case (Some a)
    obtain u ids where a: "a = (u, ids)" by (cases a)
    have mem: "u \<in> fst ` set (userConnections s)"
      using Some a owner_Some[of c s u ids] by force
    show ?thesis
    proof (cases "ids - {c} = {}")
      case True
      have "fst ` set (userConnections (removeConnection c now s))
              \<subseteq> fst ` set (AList.delete u (userConnections s))"
        using remove[of u ids] Some a True by (simp add: removeConnection_last)
      then show ?thesis by (auto simp: set_delete)
    next
      case False
      then show ?thesis using Some a mem
        by (simp add: removeConnection_more keys_update insert_absorb)
    qed
  qed
qed

text \<open>\<open>heartbeatIntervals\<close> stays a \<open>Map\<close> as well.\<close>

lemma heartbeats_distinct_removeConnection:
  "distinct (map fst (heartbeatIntervals s)) \<Longrightarrow>
   distinct (map fst (heartbeatIntervals (removeConnection c now s)))"
  using heartbeats_pruned(3)[of c s now] by (auto simp: cleared_def distinct_map_filter)

lemma heartbeats_distinct_broadcast:
  "distinct (map fst (heartbeatIntervals s)) \<Longrightarrow>
   distinct (map fst (heartbeatIntervals (broadcastMessage ev now s)))"
  by (simp add: heartbeats_pruned(1) cleared_def distinct_map_filter)

lemma heartbeats_distinct_step:
  assumes "distinct (map fst (heartbeatIntervals s))"
  shows "distinct (map fst (heartbeatIntervals (room_step op s)))"
proof (cases op)
  case (Subscribe request c interval)
  then show ?thesis using assms
    by (auto simp: handleWebSocketUpgrade_def setupHeartbeat_def Let_def distinct_update
             split: option.splits)
next
  case (HeartbeatTick c now)
  then show ?thesis using assms heartbeats_distinct_removeConnection[OF assms]
    by (auto simp: heartbeatTick_def split: option.splits)
next
  case (PublishMessage request uuid now)
  then show ?thesis using assms
    by (auto simp: handleMessageRequest_def heartbeats_distinct_broadcast split: option.splits)
next
  case (SetTyping request now)
  then show ?thesis using assms
    by (auto simp: handleTypingRequest_def Let_def heartbeats_distinct_broadcast
             split: option.splits)
next
  case (SetPresence request now)
  then show ?thesis using assms
    by (auto simp: handlePresenceRequest_def heartbeats_distinct_broadcast split: option.splits)
next
  case (SocketMessage frame userId uuid now)
  then show ?thesis using assms
    by (cases frame)
       (auto simp: onMessage_def handleClientMessage_def handleTypingIndicator_def
                   heartbeats_distinct_broadcast)
next
  case (TransportChange c ws)
  then show ?thesis using assms by (simp add: transportChange_def)
qed (simp_all add: assms heartbeats_distinct_removeConnection)

lemma heartbeats_distinct_run:
  "distinct (map fst (heartbeatIntervals s)) \<Longrightarrow>
   distinct (map fst (heartbeatIntervals (room_run ops s)))"
  by (induction ops arbitrary: s) (simp_all add: heartbeats_distinct_step)

subsection \<open>The message endpoint\<close>

text \<open>
  Whatever is posted to the endpoint, the room and the database are left as they were and
  the response is not an ok one: the request it forwards is answered by the default case
  of \<open>fetch\<close>.
\<close>

lemma fetch_default:
  "room_fetch (pathname request) = NotFound \<Longrightarrow>
   fetch view request uuid interval now s =
     (Inr \<lparr>status_code = 404, body = Text ''Not Found''\<rparr>, s)"
  by (simp add: fetch_def)

lemma endpoint_never_publishes:
  "snd (postChatMessage view c room_draws env now (s, d)) = (s, d) \<and>
   \<not> ok (fst (postChatMessage view c room_draws env now (s, d)))"
proof -
  obtain uuid interval now_room where rd: "room_draws = (uuid, interval, now_room)"
    by (cases room_draws)
  show ?thesis
    by (simp add: postChatMessage_def rd fetch_default message_endpoint_path_not_dispatched
          ok_def Let_def split: option.splits)
qed

text \<open>
  A publish that \<open>handleMessageRequest\<close> answers with an ok response builds one event, with
  the one id and the one timestamp the handler draws, and the first loop of the broadcast
  hands that event to every connection that reports open.
\<close>

lemma publish_one_event:
  assumes "handleMessageRequest request uuid now s = (response, s')" and "ok response"
  shows "\<exists>sender messageData tail.
            json request = Some messageData \<and> getUserIdFromRequest request = Some sender \<and>
            wire s' = wire s
              @ deliveries (Message uuid (content messageData) (type messageData) sender now
                              (metadata_or_empty (metadata messageData))) (connections s)
              @ tail \<and>
            list_all prune_io tail"
proof -
  from assms obtain messageData sender where m: "json request = Some messageData"
      "getUserIdFromRequest request = Some sender"
      "s' = broadcastMessage (Message uuid (content messageData) (type messageData) sender now
                                (metadata_or_empty (metadata messageData))) now s"
    by (auto simp: handleMessageRequest_def ok_def split: if_splits option.splits)
  from wire_extension(1)[of "Message uuid (content messageData) (type messageData) sender now
                                (metadata_or_empty (metadata messageData))" now s] m
  show ?thesis by blast
qed

text \<open>
  The statement that one call of the helper hands to the database first: its id is the
  UUID that the helper draws, and its sender is \<open>c.get("userId")\<close>.
\<close>

lemma helper_store_call:
  "\<exists>row rest. received (persistMessageToDatabase c chatId b env d) =
                 received d @ InsertMessage row # rest \<and>
               values_id row = draw_id env \<and> values_senderId row = var_userId c \<and>
               (rest = [] \<or> accepts d row)"
  by (simp add: persistMessageToDatabase_def Let_def)

section \<open>Properties of the presence object\<close>

lemma frames_append [simp]: "frames c (xs @ ys) = frames c xs @ frames c ys"
  by (induction xs rule: frames.induct) auto

lemma frames_Close [simp]: "frames c (map Close cs) = []"
  by (induction cs) auto

lemma removePresenceSubscriber_fields [simp]:
  "userPresence (removePresenceSubscriber c s) = userPresence s"
  "typingIndicators (removePresenceSubscriber c s) = typingIndicators s"
  "storage (removePresenceSubscriber c s) = storage s"
  "presenceSubscribers (removePresenceSubscriber c s) = AList.delete c (presenceSubscribers s)"
  "presence_wire (removePresenceSubscriber c s) =
     presence_wire s @ (if c \<in> fst ` set (presenceSubscribers s) then [Close c] else [])"
  by (auto simp: removePresenceSubscriber_def Let_def delete_absent map_of_eq_None_iff
           split: option.splits dest: map_of_Some_key)

lemma removeAll_fields [simp]:
  "userPresence (fold removePresenceSubscriber dead s) = userPresence s"
  "typingIndicators (fold removePresenceSubscriber dead s) = typingIndicators s"
  "storage (fold removePresenceSubscriber dead s) = storage s"
  by (induction dead arbitrary: s) simp_all

lemma removeAll_subscribers:
  "presenceSubscribers (fold removePresenceSubscriber dead s) =
     filter (\<lambda>e. fst e \<notin> set dead) (presenceSubscribers s)"
proof (induction dead arbitrary: s)
  case Nil
  show ?case by simp
next
  case (Cons c dead)
  show ?case by (simp add: Cons.IH delete_as_filter)
qed

lemma removeAll_frames:
  "frames c (presence_wire (fold removePresenceSubscriber dead s)) = frames c (presence_wire s)"
  by (induction dead arbitrary: s) simp_all

lemma keys_delete: "fst ` set (AList.delete k al) = fst ` set al - {k}"
  by (auto simp: set_delete)

lemma removeAll_wire:
  "distinct dead \<Longrightarrow> set dead \<subseteq> fst ` set (presenceSubscribers s) \<Longrightarrow>
   presence_wire (fold removePresenceSubscriber dead s) = presence_wire s @ map Close dead"
proof (induction dead arbitrary: s)
  case Nil
  show ?case by simp
next
  case (Cons c dead)
  have "set dead \<subseteq> fst ` set (AList.delete c (presenceSubscribers s))"
    using Cons.prems unfolding keys_delete by auto
  then show ?case using Cons.prems by (simp add: Cons.IH)
qed

lemma broadcastPresenceUpdate_unfold:
  "broadcastPresenceUpdate ev s =
     fold removePresenceSubscriber (deadIds (presenceSubscribers s))
       (s\<lparr>presence_wire := presence_wire s @ deliveries ev (presenceSubscribers s)\<rparr>)"
  by (simp add: broadcastPresenceUpdate_def sendToAll_eq)

lemma broadcast_fields [simp]:
  "userPresence (broadcastPresenceUpdate ev s) = userPresence s"
  "typingIndicators (broadcastPresenceUpdate ev s) = typingIndicators s"
  "storage (broadcastPresenceUpdate ev s) = storage s"
  by (simp_all add: broadcastPresenceUpdate_unfold)

lemma broadcast_subscribers:
  "presenceSubscribers (broadcastPresenceUpdate ev s) =
     filter (\<lambda>e. fst e \<notin> set (deadIds (presenceSubscribers s))) (presenceSubscribers s)"
  by (simp add: broadcastPresenceUpdate_unfold removeAll_subscribers)

lemma broadcast_frames:
  "frames c (presence_wire (broadcastPresenceUpdate ev s)) =
     frames c (presence_wire s) @ frames c (deliveries ev (presenceSubscribers s))"
  by (simp add: broadcastPresenceUpdate_unfold removeAll_frames)

lemma deadIds_distinct: "distinct (map fst al) \<Longrightarrow> distinct (deadIds al)"
  unfolding deadIds_def by (simp add: distinct_map_filter)

lemma deadIds_keys: "set (deadIds al) \<subseteq> fst ` set al"
  by (auto simp: deadIds_def)

lemma broadcast_wire:
  assumes "distinct (map fst (presenceSubscribers s))"
  shows "presence_wire (broadcastPresenceUpdate ev s) =
           presence_wire s @ deliveries ev (presenceSubscribers s)
             @ map Close (deadIds (presenceSubscribers s))"
  using deadIds_distinct[OF assms] deadIds_keys[of "presenceSubscribers s"]
  by (simp add: broadcastPresenceUpdate_unfold removeAll_wire)

lemma filter_dead_healthy:
  assumes "distinct (map fst al)"
  shows "filter (\<lambda>e. fst e \<notin> set (deadIds al)) al = filter (\<lambda>(c, ws). healthy ws) al"
proof (rule filter_cong[OF refl])
  fix e assume e: "e \<in> set al"
  obtain c ws where cw: "e = (c, ws)" by (cases e)
  have "c \<in> set (deadIds al) \<longleftrightarrow> \<not> healthy ws"
  proof
    assume "c \<in> set (deadIds al)"
    then obtain ws' where w: "(c, ws') \<in> set al" "\<not> healthy ws'"
      by (auto simp: deadIds_def)
    then have "ws' = ws" using assms e cw by (metis eq_key_imp_eq_value)
    then show "\<not> healthy ws" using w by simp
  next
    assume "\<not> healthy ws"
    then show "c \<in> set (deadIds al)" using e cw by (force simp: deadIds_def)
  qed
  then show "(fst e \<notin> set (deadIds al)) = (case e of (c, ws) \<Rightarrow> healthy ws)"
    by (simp add: cw)
qed

lemma frames_deliveries_listening:
  assumes "distinct (map fst al)" "map_of al c = Some ws" "healthy ws"
  shows "frames c (deliveries ev al) = [ev]"
  using assms
proof (induction al)
  case Nil
  then show ?case by simp
next
  case (Cons e al)
  obtain c' ws' where e: "e = (c', ws')" by (cases e)
  show ?case
  proof (cases "c' = c")
    case True
    then have ws: "ws' = ws" using Cons.prems e by simp
    have "c \<notin> fst ` set al" using Cons.prems(1) e True by auto
    then have "frames c (deliveries ev al) = []"
      by (induction al) (auto simp: deliveries_def)
    then show ?thesis using Cons.prems(3) True ws e
      by (simp add: deliveries_def healthy_def)
  next
    case False
    then have "frames c (deliveries ev al) = [ev]"
      using Cons e by simp
    then show ?thesis using False e by (simp add: deliveries_def)
  qed
qed

lemma listening_broadcast:
  assumes "listening c s"
  shows "listening c (broadcastPresenceUpdate ev s)"
    and "frames c (presence_wire (broadcastPresenceUpdate ev s)) = frames c (presence_wire s) @ [ev]"
proof -
  from assms obtain ws where d: "distinct (map fst (presenceSubscribers s))"
    and m: "map_of (presenceSubscribers s) c = Some ws" and h: "healthy ws"
    by (auto simp: listening_def split: option.splits)
  show "frames c (presence_wire (broadcastPresenceUpdate ev s)) = frames c (presence_wire s) @ [ev]"
    by (simp add: broadcast_frames frames_deliveries_listening[OF d m h])
  have subs: "presenceSubscribers (broadcastPresenceUpdate ev s) =
                filter (\<lambda>(c, ws). healthy ws) (presenceSubscribers s)"
    by (simp add: broadcast_subscribers filter_dead_healthy[OF d])
  have "map_of al c = Some ws \<Longrightarrow> map_of (filter (\<lambda>(c, ws). healthy ws) al) c = Some ws"
    for al
    using h by (induction al) (auto split: if_splits)
  from this[OF m]
  have "map_of (filter (\<lambda>(c, ws). healthy ws) (presenceSubscribers s)) c = Some ws" .
  then show "listening c (broadcastPresenceUpdate ev s)"
    using d by (simp add: listening_def subs distinct_map_filter)
qed

lemma removeAll_closes:
  "\<exists>cl. presence_wire (fold removePresenceSubscriber dead s) = presence_wire s @ map Close cl"
proof (induction dead arbitrary: s)
  case Nil
  show ?case by (rule exI[of _ "[]"]) simp
next
  case (Cons c dead)
  from Cons.IH[of "removePresenceSubscriber c s"] obtain cl where
    "presence_wire (fold removePresenceSubscriber dead (removePresenceSubscriber c s)) =
       presence_wire (removePresenceSubscriber c s) @ map Close cl" by blast
  then show ?case
    by (intro exI[of _ "(if c \<in> fst ` set (presenceSubscribers s) then [c] else []) @ cl"]) simp
qed

lemma broadcast_closes:
  "\<exists>cl. presence_wire (broadcastPresenceUpdate ev s) =
          presence_wire s @ deliveries ev (presenceSubscribers s) @ map Close cl"
  using removeAll_closes[of "deadIds (presenceSubscribers s)"
          "s\<lparr>presence_wire := presence_wire s @ deliveries ev (presenceSubscribers s)\<rparr>"]
  by (simp add: broadcastPresenceUpdate_unfold)

lemma listening_irrelevant [simp]:
  "listening c (s\<lparr>typingIndicators := ti\<rparr>) = listening c s"
  "listening c (s\<lparr>userPresence := up\<rparr>) = listening c s"
  "listening c (s\<lparr>storage := st\<rparr>) = listening c s"
  by (simp_all add: listening_def)

lemma expire_indicators:
  "typingIndicators (expireTypingIndicator now k s) = AList.delete k (typingIndicators s)"
  by (cases "map_of (typingIndicators s) k")
     (auto simp: expireTypingIndicator_def Let_def delete_absent split: option.splits)

lemma expire_listening:
  "listening c s \<Longrightarrow> listening c (expireTypingIndicator now k s)"
  by (cases "map_of (typingIndicators s) k")
     (auto simp: expireTypingIndicator_def Let_def listening_broadcast(1) split: option.splits)

lemma expire_frames:
  "listening c s \<Longrightarrow>
   frames c (presence_wire (expireTypingIndicator now k s)) =
     frames c (presence_wire s) @
       (case map_of (typingIndicators s) k of
          None \<Rightarrow> []
        | Some ind \<Rightarrow> [TypingStop (indicator_userId ind) (indicator_chatId ind) now])"
  by (cases "map_of (typingIndicators s) k")
     (auto simp: expireTypingIndicator_def Let_def listening_broadcast(2) split: option.splits)

lemma expire_fold_indicators:
  "typingIndicators (fold (expireTypingIndicator now) ks s) =
     filter (\<lambda>e. fst e \<notin> set ks) (typingIndicators s)"
  by (induction ks arbitrary: s) (simp_all add: expire_indicators delete_as_filter)

lemma map_of_delete_other: "k' \<noteq> k \<Longrightarrow> map_of (AList.delete k al) k' = map_of al k'"
  by (induction al) auto

lemma expire_fold_frames:
  assumes "listening c s" and "distinct (map fst es)"
    and "\<forall>e \<in> set es. map_of (typingIndicators s) (fst e) = Some (snd e)"
  shows "listening c (fold (expireTypingIndicator now) (map fst es) s) \<and>
         frames c (presence_wire (fold (expireTypingIndicator now) (map fst es) s)) =
           frames c (presence_wire s) @
             map (\<lambda>(key, indicator).
                    TypingStop (indicator_userId indicator) (indicator_chatId indicator) now) es"
  using assms
proof (induction es arbitrary: s)
  case Nil
  then show ?case by simp
next
  case (Cons e es)
  obtain k ind where e: "e = (k, ind)" by (cases e)
  let ?s1 = "expireTypingIndicator now k s"
  have l1: "listening c ?s1" by (rule expire_listening[OF Cons.prems(1)])
  have f1: "frames c (presence_wire ?s1) =
              frames c (presence_wire s)
                @ [TypingStop (indicator_userId ind) (indicator_chatId ind) now]"
    using Cons.prems(3) e by (simp add: expire_frames[OF Cons.prems(1)])
  have rest: "\<forall>e' \<in> set es. map_of (typingIndicators ?s1) (fst e') = Some (snd e')"
  proof
    fix e' assume m: "e' \<in> set es"
    then have "fst e' \<noteq> k" using Cons.prems(2) e by auto
    then show "map_of (typingIndicators ?s1) (fst e') = Some (snd e')"
      using Cons.prems(3) m by (simp add: expire_indicators map_of_delete_other)
  qed
  have d: "distinct (map fst es)" using Cons.prems(2) by simp
  from Cons.IH[OF l1 d rest] show ?case by (simp add: e f1)
qed

lemma expired_entries_lookup:
  assumes "distinct (map fst al)"
  shows "\<forall>e \<in> set (filter P al). map_of al (fst e) = Some (snd e)"
  using assms by (auto simp del: map_of_eq_Some_iff simp add: map_of_eq_Some_iff[OF assms])

lemma cleanup_frames:
  assumes "listening c s" and "distinct (map fst (typingIndicators s))"
  shows "listening c (cleanupExpiredTypingIndicators now s) \<and>
         frames c (presence_wire (cleanupExpiredTypingIndicators now s)) =
           frames c (presence_wire s) @ sweep_stops now (typingIndicators s)"
proof -
  let ?es = "filter (\<lambda>(key, indicator). now - indicator_timestamp indicator > 10000)
               (typingIndicators s)"
  have d: "distinct (map fst ?es)" using assms(2) by (simp add: distinct_map_filter)
  show ?thesis
    using expire_fold_frames[OF assms(1) d expired_entries_lookup[OF assms(2)], of now]
    by (simp add: cleanupExpiredTypingIndicators_def expiredKeys_def sweep_stops_def)
qed

lemma map_of_filter_out:
  "k \<in> set ks \<Longrightarrow> map_of (filter (\<lambda>e. fst e \<notin> set ks) al) k = None"
proof -
  assume "k \<in> set ks"
  then have "k \<notin> fst ` set (filter (\<lambda>e. fst e \<notin> set ks) al)" by auto
  then show ?thesis by (rule map_of_eq_None_iff[THEN iffD2])
qed

lemma filter_single:
  assumes "distinct (map fst al)" and "(k0, v0) \<in> set al" and "P (k0, v0)"
    and "\<And>e. e \<in> set al \<Longrightarrow> P e \<Longrightarrow> fst e = k0"
  shows "filter P al = [(k0, v0)]"
  using assms
proof (induction al)
  case Nil
  then show ?case by simp
next
  case (Cons e al)
  show ?case
  proof (cases "e = (k0, v0)")
    case True
    have "\<not> P e'" if "e' \<in> set al" for e'
    proof
      assume "P e'"
      then have "fst e' = k0" using Cons.prems(4) that by simp
      then show False using Cons.prems(1) True that by (auto simp: image_iff)
    qed
    then have "filter P al = []" by (simp add: filter_empty_conv)
    then show ?thesis using True Cons.prems(3) by simp
  next
    case False
    then have m: "(k0, v0) \<in> set al" using Cons.prems(2) by simp
    have "fst e \<noteq> k0" using Cons.prems(1) m by (cases e) (auto simp: image_iff)
    then have "\<not> P e" using Cons.prems(4)[of e] by auto
    moreover have "filter P al = [(k0, v0)]"
      using Cons.IH[OF _ m Cons.prems(3)] Cons.prems(1,4) by simp
    ultimately show ?thesis by simp
  qed
qed


lemma typing_ok_irrelevant [simp]:
  "typing_ok (s\<lparr>userPresence := up\<rparr>) = typing_ok s"
  "typing_ok (s\<lparr>storage := st\<rparr>) = typing_ok s"
  "typing_ok (s\<lparr>presenceSubscribers := ps\<rparr>) = typing_ok s"
  "typing_ok (s\<lparr>heartbeatIntervals_presence := ph\<rparr>) = typing_ok s"
  "typing_ok (s\<lparr>presence_wire := pw\<rparr>) = typing_ok s"
  by (simp_all add: typing_ok_def)

lemma typing_ok_broadcast [simp]: "typing_ok (broadcastPresenceUpdate ev s) = typing_ok s"
  by (simp add: typing_ok_def)

lemma set_update_subset: "set (AList.update k v al) \<subseteq> insert (k, v) (set al)"
  by (induction al) auto

lemma typing_start_records:
  assumes "typing_ok s"
    and "http_method request = ''POST''"
    and "json request = Some \<lparr>presenceTyping_chatId = chat, presenceTyping_isTyping = True\<rparr>"
    and "getUserIdFromRequest request = Some u"
  shows "typing_ok (snd (handleTypingRequest_presence request T s)) \<and>
         map_of (typingIndicators (snd (handleTypingRequest_presence request T s))) (typing_key u chat) =
           Some \<lparr>indicator_userId = u, indicator_chatId = chat, indicator_timestamp = T\<rparr>"
proof -
  let ?ind = "\<lparr>indicator_userId = u, indicator_chatId = chat, indicator_timestamp = T\<rparr>"
  have t: "typingIndicators (snd (handleTypingRequest_presence request T s)) =
             AList.update (typing_key u chat) ?ind (typingIndicators s)"
    using assms(2-4)
    by (cases "map_of (userPresence s) u") (simp_all add: handleTypingRequest_presence_def Let_def)
  have "\<forall>e \<in> set (AList.update (typing_key u chat) ?ind (typingIndicators s)).
          fst e = typing_key (indicator_userId (snd e)) (indicator_chatId (snd e))"
    using assms(1) set_update_subset[of "typing_key u chat" ?ind "typingIndicators s"]
    by (auto simp: typing_ok_def)
  then show ?thesis
    using assms(1) unfolding t typing_ok_def by (simp add: distinct_update update_conv')
qed

lemma typing_ok_cleanup: "typing_ok s \<Longrightarrow> typing_ok (cleanupExpiredTypingIndicators now s)"
  by (auto simp: typing_ok_def cleanupExpiredTypingIndicators_def expire_fold_indicators
        distinct_map_filter)

lemma map_absent_key:
  "k \<notin> fst ` set al \<Longrightarrow> map (\<lambda>(k', v'). (k', if k' = k then f v' else v')) al = al"
  by (induction al) auto

lemma update_as_map:
  "distinct (map fst al) \<Longrightarrow> map_of al k = Some v0 \<Longrightarrow>
   AList.update k (f v0) al = map (\<lambda>(k', v'). (k', if k' = k then f v' else v')) al"
proof (induction al)
  case Nil
  then show ?case by simp
next
  case (Cons e al)
  obtain a b where e: "e = (a, b)" by (cases e)
  show ?case
  proof (cases "a = k")
    case True
    then have "k \<notin> fst ` set al" using Cons.prems(1) e by simp
    then show ?thesis using True e Cons.prems(2) by (simp add: map_absent_key)
  next
    case False
    then show ?thesis using e Cons by simp
  qed
qed

lemma expire_presence:
  assumes "distinct (map fst (userPresence s))" and "map_of (typingIndicators s) k = Some ind"
  shows "userPresence (expireTypingIndicator now k s) =
           map (\<lambda>(k', p). (k', if k' = indicator_userId ind then clear_typing p else p))
             (userPresence s)"
proof (cases "map_of (userPresence s) (indicator_userId ind)")
  case None
  then have "indicator_userId ind \<notin> fst ` set (userPresence s)"
    by (simp add: map_of_eq_None_iff)
  then show ?thesis using assms(2) None
    by (simp add: expireTypingIndicator_def Let_def map_absent_key)
next
  case (Some p)
  have "userPresence (expireTypingIndicator now k s) =
          AList.update (indicator_userId ind) (clear_typing p) (userPresence s)"
    using assms(2) Some by (simp add: expireTypingIndicator_def Let_def clear_typing_def)
  then show ?thesis using update_as_map[OF assms(1) Some, of clear_typing] by simp
qed

lemma clear_typing_idem [simp]: "clear_typing (clear_typing p) = clear_typing p"
  by (simp add: clear_typing_def)

lemma expire_fold_presence:
  assumes "distinct (map fst (userPresence s))" and "distinct (map fst es)"
    and "\<forall>e \<in> set es. map_of (typingIndicators s) (fst e) = Some (snd e)"
  shows "userPresence (fold (expireTypingIndicator now) (map fst es) s) =
           map (\<lambda>(k', p). (k', if k' \<in> indicator_userId ` snd ` set es
                                 then clear_typing p else p))
             (userPresence s)"
  using assms
proof (induction es arbitrary: s)
  case Nil
  then show ?case by simp
next
  case (Cons e es)
  obtain k ind where e: "e = (k, ind)" by (cases e)
  let ?s1 = "expireTypingIndicator now k s"
  have look: "map_of (typingIndicators s) k = Some ind" using Cons.prems(3) e by simp
  have up1: "userPresence ?s1 =
               map (\<lambda>(k', p). (k', if k' = indicator_userId ind then clear_typing p else p))
                 (userPresence s)"
    by (rule expire_presence[OF Cons.prems(1) look])
  have d1: "distinct (map fst (userPresence ?s1))"
    using Cons.prems(1) unfolding up1 by (simp add: case_prod_beta comp_def)
  have rest: "\<forall>e' \<in> set es. map_of (typingIndicators ?s1) (fst e') = Some (snd e')"
  proof
    fix e' assume m: "e' \<in> set es"
    then have "fst e' \<noteq> k" using Cons.prems(2) e by auto
    then show "map_of (typingIndicators ?s1) (fst e') = Some (snd e')"
      using Cons.prems(3) m by (simp add: expire_indicators map_of_delete_other)
  qed
  have d: "distinct (map fst es)" using Cons.prems(2) by simp
  have "userPresence (fold (expireTypingIndicator now) (map fst (e # es)) s) =
          map (\<lambda>(k', p). (k', if k' \<in> indicator_userId ` snd ` set es
                                then clear_typing p else p)) (userPresence ?s1)"
    using Cons.IH[OF d1 d rest] by (simp add: e)
  also have "\<dots> = map (\<lambda>(k', p). (k', if k' \<in> indicator_userId ` snd ` set (e # es)
                                          then clear_typing p else p)) (userPresence s)"
    unfolding up1 by (auto simp: e)
  finally show ?case .
qed

lemma cleanup_presence:
  assumes "distinct (map fst (userPresence s))" and "distinct (map fst (typingIndicators s))"
  shows "userPresence (cleanupExpiredTypingIndicators now s) =
           map (\<lambda>(k', p). (k', if k' \<in> expiring_users now s then clear_typing p else p))
             (userPresence s)"
proof -
  let ?es = "filter (\<lambda>(key, indicator). now - indicator_timestamp indicator > 10000)
               (typingIndicators s)"
  have d: "distinct (map fst ?es)" using assms(2) by (simp add: distinct_map_filter)
  show ?thesis
    using expire_fold_presence[OF assms(1) d expired_entries_lookup[OF assms(2)], of now]
    by (simp add: cleanupExpiredTypingIndicators_def expiredKeys_def expiring_users_def)
qed


lemma update_const_as_map:
  assumes "distinct (map fst al)" and "k \<in> fst ` set al"
  shows "AList.update k v al = map (\<lambda>(k', v'). (k', if k' = k then v else v')) al"
proof -
  from assms(2) obtain v0 where "map_of al k = Some v0"
    by (metis map_of_eq_None_iff not_Some_eq)
  from update_as_map[OF assms(1) this, of "\<lambda>_. v"] show ?thesis by simp
qed

lemma demote_step_presence:
  assumes "distinct (map fst (userPresence st))" and "k \<in> fst ` set (userPresence st)"
  shows "userPresence (demoteStale t (k, p') st) =
           map (\<lambda>(k', p). (k', if k' = k \<and> stale_online t p' then p'\<lparr>status := offline\<rparr> else p))
             (userPresence st)"
proof (cases "stale_online t p'")
  case True
  then show ?thesis
    using update_const_as_map[OF assms, of "p'\<lparr>status := offline\<rparr>"]
    by (simp add: demoteStale_def stale_online_def Let_def)
next
  case False
  have "map (\<lambda>(k', p). (k', p)) (userPresence st) = userPresence st"
    by (simp add: case_prod_beta)
  then show ?thesis using False
    by (auto simp: demoteStale_def stale_online_def)
qed

lemma demote_fold_presence:
  assumes "distinct (map fst (userPresence st))" and "distinct (map fst es)"
    and "fst ` set es \<subseteq> fst ` set (userPresence st)"
  shows "userPresence (fold (demoteStale t) es st) =
           map (\<lambda>(k', p). (k', case map_of es k' of
                                  Some p' \<Rightarrow> if stale_online t p' then p'\<lparr>status := offline\<rparr> else p
                                | None \<Rightarrow> p))
             (userPresence st)"
  using assms
proof (induction es arbitrary: st)
  case Nil
  then show ?case by (simp add: case_prod_beta)
next
  case (Cons e es)
  obtain k p' where e: "e = (k, p')" by (cases e)
  let ?st1 = "demoteStale t (k, p') st"
  have kin: "k \<in> fst ` set (userPresence st)" using Cons.prems(3) e by simp
  have up1: "userPresence ?st1 =
           map (\<lambda>(k', p). (k', if k' = k \<and> stale_online t p' then p'\<lparr>status := offline\<rparr> else p))
             (userPresence st)"
    by (rule demote_step_presence[OF Cons.prems(1) kin])
  have keys1: "map fst (userPresence ?st1) = map fst (userPresence st)"
    unfolding up1 by (simp add: case_prod_beta comp_def)
  have d1: "distinct (map fst (userPresence ?st1))" using Cons.prems(1) keys1 by simp
  have sub1: "fst ` set es \<subseteq> fst ` set (userPresence ?st1)"
    using Cons.prems(3) keys1 by (metis image_set set_subset_Cons subset_trans image_mono)
  have d: "distinct (map fst es)" and notin: "map_of es k = None"
    using Cons.prems(2) e by (simp_all add: map_of_eq_None_iff)
  have "userPresence (fold (demoteStale t) (e # es) st) =
          map (\<lambda>(k', p). (k', case map_of es k' of
                                 Some p' \<Rightarrow> if stale_online t p' then p'\<lparr>status := offline\<rparr> else p
                               | None \<Rightarrow> p))
            (userPresence ?st1)"
    using Cons.IH[OF d1 d sub1] by (simp add: e)
  also have "\<dots> = map (\<lambda>(k', p). (k', case map_of (e # es) k' of
                                 Some p' \<Rightarrow> if stale_online t p' then p'\<lparr>status := offline\<rparr> else p
                               | None \<Rightarrow> p))
            (userPresence st)"
    unfolding up1 using notin by (auto simp: e)
  finally show ?case .
qed

lemma demote_listening:
  "listening c st \<Longrightarrow> listening c (demoteStale t e st)"
  by (cases e) (simp add: demoteStale_def Let_def listening_broadcast(1))

lemma demote_frames:
  "listening c st \<Longrightarrow>
   frames c (presence_wire (demoteStale t (k, p) st)) =
     frames c (presence_wire st) @
       (if stale_online t p then [PresenceUpdate (p\<lparr>status := offline\<rparr>)] else [])"
  by (simp add: demoteStale_def Let_def stale_online_def listening_broadcast(2))

lemma demote_fold_frames:
  assumes "listening c st"
  shows "listening c (fold (demoteStale t) es st) \<and>
         frames c (presence_wire (fold (demoteStale t) es st)) =
           frames c (presence_wire st) @
             map (\<lambda>(k, p). PresenceUpdate (p\<lparr>status := offline\<rparr>))
               (filter (\<lambda>(k, p). stale_online t p) es)"
  using assms
proof (induction es arbitrary: st)
  case Nil
  then show ?case by simp
next
  case (Cons e es)
  obtain k p where e: "e = (k, p)" by (cases e)
  from Cons.IH[OF demote_listening[OF Cons.prems, of t e]]
  show ?case using demote_frames[OF Cons.prems, of t k p] by (simp add: e)
qed


lemma map_of_map_keyed:
  "map_of (map (\<lambda>(k, v). (k, f k v)) al) k = map_option (f k) (map_of al k)"
  by (induction al) auto

lemma sweep_stops_no_update:
  "filter (is_presence_update_for u) (sweep_stops now al) = []"
  by (induction al) (auto simp: sweep_stops_def)

lemma stale_clear [simp]: "stale_online t (clear_typing p) = stale_online t p"
  by (simp add: stale_online_def clear_typing_def)

lemma userId_clear [simp]: "presence_userId (clear_typing p) = presence_userId p"
  by (simp add: clear_typing_def)

lemma presence_ok_cleanup:
  assumes "presence_ok s" and "distinct (map fst (typingIndicators s))"
  shows "presence_ok (cleanupExpiredTypingIndicators now s)"
proof -
  from assms(1) have d: "distinct (map fst (userPresence s))"
    and c: "\<forall>e \<in> set (userPresence s). presence_userId (snd e) = fst e"
    by (simp_all add: presence_ok_def)
  show ?thesis
    unfolding presence_ok_def cleanup_presence[OF d assms(2)]
    using d c by (auto simp: case_prod_beta comp_def)
qed

text \<open>
  The two conditions hold when the object is constructed, and the handlers and the sweep
  keep them.
\<close>

lemma new_presence_ok: "presence_ok new_presence \<and> typing_ok new_presence"
  by (simp add: presence_ok_def typing_ok_def new_presence_def)

lemma presence_ok_irrelevant [simp]:
  "presence_ok (s\<lparr>typingIndicators := ti\<rparr>) = presence_ok s"
  "presence_ok (s\<lparr>storage := st\<rparr>) = presence_ok s"
  "presence_ok (s\<lparr>presenceSubscribers := ps\<rparr>) = presence_ok s"
  "presence_ok (s\<lparr>heartbeatIntervals_presence := ph\<rparr>) = presence_ok s"
  "presence_ok (s\<lparr>presence_wire := pw\<rparr>) = presence_ok s"
  "presence_ok (broadcastPresenceUpdate ev s) = presence_ok s"
  by (simp_all add: presence_ok_def)

lemma presence_ok_same:
  "userPresence s' = userPresence s \<Longrightarrow> presence_ok s' = presence_ok s"
  by (simp add: presence_ok_def)

lemma presence_ok_update:
  assumes "presence_ok s" and "presence_userId p = k"
    and "userPresence s' = AList.update k p (userPresence s)"
  shows "presence_ok s'"
proof -
  have "\<forall>e \<in> set (AList.update k p (userPresence s)). presence_userId (snd e) = fst e"
    using assms(1,2) set_update_subset[of k p "userPresence s"]
    by (auto simp: presence_ok_def)
  then show ?thesis using assms(1,3) by (simp add: presence_ok_def distinct_update)
qed

lemma presence_ok_presence_request:
  assumes "presence_ok s"
  shows "presence_ok (snd (handlePresenceRequest_presence request now s))"
proof (cases "http_method request = ''POST'' \<and> json request \<noteq> None \<and>
              getUserIdFromRequest request \<noteq> None")
  case False
  then have "snd (handlePresenceRequest_presence request now s) = s"
    by (auto simp: handlePresenceRequest_presence_def split: option.splits)
  then show ?thesis using assms by simp
next
  case True
  then obtain d u where r: "http_method request = ''POST''" "json request = Some d"
      "getUserIdFromRequest request = Some u" by auto
  let ?p = "\<lparr>presence_userId = u, status = presenceData_status d, lastSeenAt = now,
             deviceInfo = presenceData_deviceInfo d,
             currentChatId = presenceData_currentChatId d,
             isTyping = None, typingInChatId = None\<rparr>"
  have "userPresence (snd (handlePresenceRequest_presence request now s)) =
          AList.update u ?p (userPresence s)"
    using r by (simp add: handlePresenceRequest_presence_def Let_def)
  from presence_ok_update[OF assms _ this] show ?thesis by simp
qed

lemma presence_ok_typing_request:
  assumes "presence_ok s"
  shows "presence_ok (snd (handleTypingRequest_presence request now s))"
proof (cases "http_method request = ''POST'' \<and> json request \<noteq> None \<and>
              getUserIdFromRequest request \<noteq> None")
  case False
  then have "snd (handleTypingRequest_presence request now s) = s"
    by (auto simp: handleTypingRequest_presence_def split: option.splits)
  then show ?thesis using assms by simp
next
  case True
  then obtain d u where r: "http_method request = ''POST''" "json request = Some d"
      "getUserIdFromRequest request = Some u" by auto
  let ?s' = "snd (handleTypingRequest_presence request now s)"
  show ?thesis
  proof (cases "map_of (userPresence s) u")
    case None
    then have "userPresence ?s' = userPresence s"
      using r by (simp add: handleTypingRequest_presence_def Let_def)
    then show ?thesis using assms presence_ok_same by blast
  next
    case (Some cp)
    have own: "presence_userId cp = u"
      using assms map_of_SomeD[OF Some] by (force simp: presence_ok_def)
    let ?cp = "if presenceTyping_isTyping d
               then cp\<lparr>isTyping := Some True, typingInChatId := Some (presenceTyping_chatId d)\<rparr>
               else cp\<lparr>isTyping := Some False, typingInChatId := None\<rparr>"
    have e: "userPresence ?s' = AList.update u ?cp (userPresence s)"
      using r Some by (simp add: handleTypingRequest_presence_def Let_def)
    have "presence_userId ?cp = u" using own by simp
    from presence_ok_update[OF assms this e] show ?thesis .
  qed
qed

lemma typing_ok_presence_request:
  "typing_ok s \<Longrightarrow> typing_ok (snd (handlePresenceRequest_presence request now s))"
  by (auto simp: handlePresenceRequest_presence_def Let_def split: option.splits)

lemma typing_ok_same:
  "typingIndicators s' = typingIndicators s \<Longrightarrow> typing_ok s' = typing_ok s"
  by (simp add: typing_ok_def)

lemma typing_ok_typing_request:
  assumes "typing_ok s"
  shows "typing_ok (snd (handleTypingRequest_presence request T s))"
proof (cases "http_method request = ''POST'' \<and> json request \<noteq> None \<and>
              getUserIdFromRequest request \<noteq> None")
  case False
  then have "snd (handleTypingRequest_presence request T s) = s"
    by (auto simp: handleTypingRequest_presence_def split: option.splits)
  then show ?thesis using assms by simp
next
  case True
  then obtain d u where r: "http_method request = ''POST''" "json request = Some d"
      "getUserIdFromRequest request = Some u" by auto
  let ?s' = "snd (handleTypingRequest_presence request T s)"
  let ?k = "typing_key u (presenceTyping_chatId d)"
  let ?ind = "\<lparr>indicator_userId = u, indicator_chatId = presenceTyping_chatId d,
               indicator_timestamp = T\<rparr>"
  show ?thesis
  proof (cases "presenceTyping_isTyping d")
    case True
    have e: "typingIndicators ?s' = AList.update ?k ?ind (typingIndicators s)"
      using r True
      by (cases "map_of (userPresence s) u")
         (simp_all add: handleTypingRequest_presence_def Let_def)
    have "\<forall>e \<in> set (typingIndicators ?s').
            fst e = typing_key (indicator_userId (snd e)) (indicator_chatId (snd e))"
      unfolding e using assms set_update_subset[of ?k ?ind "typingIndicators s"]
      by (auto simp: typing_ok_def)
    then show ?thesis using assms unfolding typing_ok_def e by (simp add: distinct_update)
  next
    case False
    have e: "typingIndicators ?s' = AList.delete ?k (typingIndicators s)"
      using r False
      by (cases "map_of (userPresence s) u")
         (simp_all add: handleTypingRequest_presence_def Let_def)
    show ?thesis using assms unfolding typing_ok_def e
      by (auto simp: distinct_delete set_delete)
  qed
qed

lemma demote_fold_indicators [simp]:
  "typingIndicators (fold (demoteStale t) es s) = typingIndicators s"
  by (induction es arbitrary: s) (auto simp: demoteStale_def Let_def)

lemma typing_ok_alarm: "typing_ok s \<Longrightarrow> typing_ok (alarm now now' s)"
  using typing_ok_cleanup[of s now] by (simp add: alarm_def Let_def typing_ok_def)


lemma presence_ok_demote:
  assumes "presence_ok st" and "presence_userId p = k"
  shows "presence_ok (demoteStale t (k, p) st)"
proof (cases "stale_online t p")
  case True
  have "presence_ok (st\<lparr>userPresence := AList.update k (p\<lparr>status := offline\<rparr>) (userPresence st)\<rparr>)"
    by (rule presence_ok_update[OF assms(1), of "p\<lparr>status := offline\<rparr>" k]) (simp_all add: assms(2))
  then show ?thesis using True by (simp add: demoteStale_def stale_online_def Let_def)
next
  case False
  then show ?thesis using assms(1) by (auto simp: demoteStale_def stale_online_def)
qed

lemma presence_ok_demote_fold:
  assumes "presence_ok st" and "\<forall>e \<in> set es. presence_userId (snd e) = fst e"
  shows "presence_ok (fold (demoteStale t) es st)"
  using assms
proof (induction es arbitrary: st)
  case Nil
  then show ?case by simp
next
  case (Cons e es)
  obtain k p where e: "e = (k, p)" by (cases e)
  have "presence_ok (demoteStale t (k, p) st)"
    using presence_ok_demote[OF Cons.prems(1)] Cons.prems(2) e by simp
  from Cons.IH[OF this] Cons.prems(2) show ?case by (simp add: e)
qed

lemma presence_ok_alarm:
  assumes "presence_ok s" and "distinct (map fst (typingIndicators s))"
  shows "presence_ok (alarm now now' s)"
proof -
  have ok1: "presence_ok (cleanupExpiredTypingIndicators now s)"
    by (rule presence_ok_cleanup[OF assms])
  then have "\<forall>e \<in> set (userPresence (cleanupExpiredTypingIndicators now s)).
               presence_userId (snd e) = fst e"
    by (simp add: presence_ok_def)
  from presence_ok_demote_fold[OF ok1 this] show ?thesis by (simp add: alarm_def Let_def)
qed

lemma removePresenceSubscriber_heartbeats:
  "heartbeatIntervals_presence (removePresenceSubscriber c s) =
     cleared {c} (heartbeatIntervals_presence s)"
  by (auto simp: removePresenceSubscriber_def Let_def cleared_one delete_absent
           split: option.splits)

subsection \<open>Removing the last connection of a user\<close>

lemma last_connection_connections:
  assumes "distinct (map fst (connections s))"
    and "owner c s = Some (u, ids)" and "ids - {c} = {}"
  shows "connections (removeConnection c now s) =
           filter (\<lambda>(k, ws). k \<noteq> c \<and> healthy ws) (connections s)"
proof -
  let ?s2 = "(detach c s)\<lparr>userConnections := AList.delete u (userConnections s)\<rparr>"
  have c2: "connections ?s2 = filter (\<lambda>e. fst e \<notin> {c}) (connections s)"
    by (simp add: delete_as_filter)
  have d2: "distinct (map fst (connections ?s2))"
    unfolding c2 using assms(1) by (simp add: distinct_map_filter)
  have "connections (removeConnection c now s) =
          filter (\<lambda>(k, ws). healthy ws) (connections ?s2)"
    unfolding removeConnection_last[OF assms(2,3)] connections_pruned(1)
    by (rule filter_dead_healthy[OF d2])
  also have "\<dots> = filter (\<lambda>(k, ws). k \<noteq> c \<and> healthy ws) (connections s)"
    unfolding c2 by (auto intro: filter_cong)
  finally show ?thesis .
qed

lemma last_connection_users:
  assumes "owner c s = Some (u, ids)" and "ids - {c} = {}"
  shows "u \<notin> fst ` set (userConnections (removeConnection c now s))"
proof -
  let ?s2 = "(detach c s)\<lparr>userConnections := AList.delete u (userConnections s)\<rparr>"
  have "fst ` set (userConnections (removeConnection c now s))
          \<subseteq> fst ` set (userConnections ?s2)"
    unfolding removeConnection_last[OF assms] by (rule users_keys_subset(1))
  also have "\<dots> = fst ` set (userConnections s) - {u}"
    by (auto simp: set_delete)
  finally show ?thesis by blast
qed

lemma last_connection_heartbeats:
  assumes "distinct (map fst (heartbeatIntervals s))"
    and "owner c s = Some (u, ids)" and "ids - {c} = {}"
  shows "heartbeatIntervals (removeConnection c now s) =
           filter (\<lambda>(k, i). i = 0 \<or> (k \<noteq> c \<and> k \<notin> set (deadIds (connections s))))
             (heartbeatIntervals s)"
proof -
  let ?s2 = "(detach c s)\<lparr>userConnections := AList.delete u (userConnections s)\<rparr>"
  have "heartbeatIntervals (removeConnection c now s) =
          cleared (set (deadIds (connections ?s2))) (cleared {c} (heartbeatIntervals s))"
    unfolding removeConnection_last[OF assms(2,3)] heartbeats_pruned(1)
    by (simp add: detach_heartbeats)
  also have "\<dots> = cleared (insert c (set (deadIds (connections s)))) (heartbeatIntervals s)"
    using deadIds_delete[of c "connections s"] by (simp add: cleared_cleared)
  also have "\<dots> = filter (\<lambda>(k, i). i = 0 \<or> (k \<noteq> c \<and> k \<notin> set (deadIds (connections s))))
                      (heartbeatIntervals s)"
    unfolding cleared_distinct[OF assms(1)] by (auto intro: filter_cong)
  finally show ?thesis .
qed

section \<open>The claims\<close>

text \<open>
  C1. One broadcast, on either coordinator. The first loop calls \<open>send\<close> once on every
  connection that reports open, in registry order, and on no other (\<open>deliveries\<close>); it
  changes nothing but the trace, and the ids of the connections that are closed or whose
  send raised are collected in \<open>deadConnections\<close> (\<open>deadIds\<close>). Only then the second loop
  unregisters the collected ids. At the end of the call the registry holds exactly the
  connections that were open and whose send returned: every dead id is gone from the
  id-to-stream map and, in the room, from the users' sets. The second loop of the room sends
  nothing but the \<open>offline\<close> presence events of \<open>removeConnection\<close>; that of the presence
  object only closes.
\<close>

theorem broadcast_reaches_open_prunes_closed:
  assumes "registry_ok s"
    and "distinct (map fst (connections s))"
    and "distinct (map fst (presenceSubscribers p))"
  shows
    "broadcastMessage ev now s =
       removeDead (deadIds (connections s)) now
         (s\<lparr>wire := wire s @ deliveries ev (connections s)\<rparr>) \<and>
     (\<exists>d. wire (broadcastMessage ev now s) = wire s @ deliveries ev (connections s) @ d \<and>
          list_all prune_io d) \<and>
     connections (broadcastMessage ev now s) = filter (\<lambda>(c, ws). healthy ws) (connections s) \<and>
     \<Union> (snd ` set (userConnections (broadcastMessage ev now s))) =
       fst ` set (filter (\<lambda>(c, ws). healthy ws) (connections s)) \<and>
     set (deadIds (connections s)) \<inter> fst ` set (connections (broadcastMessage ev now s)) = {} \<and>
     broadcastPresenceUpdate pev p =
       fold removePresenceSubscriber (deadIds (presenceSubscribers p))
         (p\<lparr>presence_wire := presence_wire p @ deliveries pev (presenceSubscribers p)\<rparr>) \<and>
     presence_wire (broadcastPresenceUpdate pev p) =
       presence_wire p @ deliveries pev (presenceSubscribers p)
         @ map Close (deadIds (presenceSubscribers p)) \<and>
     presenceSubscribers (broadcastPresenceUpdate pev p) =
       filter (\<lambda>(c, ws). healthy ws) (presenceSubscribers p) \<and>
     set (deadIds (presenceSubscribers p))
       \<inter> fst ` set (presenceSubscribers (broadcastPresenceUpdate pev p)) = {}"
proof -
  let ?s' = "broadcastMessage ev now s"
  have conns: "connections ?s' = filter (\<lambda>(c, ws). healthy ws) (connections s)"
    by (simp add: connections_pruned(1) filter_dead_healthy[OF assms(2)])
  have "registry_ok ?s'" by (rule registry_ok_preserved(1)[OF assms(1)])
  then have users: "\<Union> (snd ` set (userConnections ?s')) =
                      fst ` set (filter (\<lambda>(c, ws). healthy ws) (connections s))"
    unfolding conns[symmetric] by (simp add: registry_ok_def)
  have gone: "set (deadIds (connections s)) \<inter> fst ` set (connections ?s') = {}"
    unfolding connections_pruned(1) by auto
  have psubs: "presenceSubscribers (broadcastPresenceUpdate pev p) =
                 filter (\<lambda>(c, ws). healthy ws) (presenceSubscribers p)"
    by (simp add: broadcast_subscribers filter_dead_healthy[OF assms(3)])
  have pgone: "set (deadIds (presenceSubscribers p))
                 \<inter> fst ` set (presenceSubscribers (broadcastPresenceUpdate pev p)) = {}"
    unfolding broadcast_subscribers by auto
  show ?thesis
    using broadcastMessage_unfold[of ev now s] wire_extension(1)[of ev now s] conns users gone
      broadcastPresenceUpdate_unfold[of pev p] broadcast_wire[OF assms(3), of pev] psubs pgone
    by (intro conjI)
qed

theorem broadcast_reaches_open_prunes_closed_witness:
  "registry_ok broadcast_room \<and>
   distinct (map fst (connections broadcast_room)) \<and>
   distinct (map fst (presenceSubscribers broadcast_presence)) \<and>
   wire (broadcastMessage (Typing ''A'' True 5) 6 broadcast_room) =
     [Send ''c1'' (Typing ''A'' True 5), Throw ''c3'' (Typing ''A'' True 5),
      Send ''c4'' (Typing ''A'' True 5), Close ''c2'', Close ''c3'',
      Send ''c1'' (Presence ''B'' ''offline'' 6), Send ''c4'' (Presence ''B'' ''offline'' 6)] \<and>
   connections (broadcastMessage (Typing ''A'' True 5) 6 broadcast_room) =
     [(''c1'', accepted), (''c4'', accepted)] \<and>
   presence_wire (broadcastPresenceUpdate PresencePing broadcast_presence) =
     [Send ''p1'' PresencePing, Throw ''p3'' PresencePing, Close ''p2'', Close ''p3''] \<and>
   presenceSubscribers (broadcastPresenceUpdate PresencePing broadcast_presence) =
     [(''p1'', accepted)]"
proof -
  have h1: "registry_ok broadcast_room"
    by (auto simp: broadcast_room_def registry_ok_def)
  have h2: "distinct (map fst (connections broadcast_room))"
    by (simp add: broadcast_room_def)
  have h3: "distinct (map fst (presenceSubscribers broadcast_presence))"
    by (simp add: broadcast_presence_def new_presence_def)
  have w: "wire (broadcastMessage (Typing ''A'' True 5) 6 broadcast_room) =
     [Send ''c1'' (Typing ''A'' True 5), Throw ''c3'' (Typing ''A'' True 5),
      Send ''c4'' (Typing ''A'' True 5), Close ''c2'', Close ''c3'',
      Send ''c1'' (Presence ''B'' ''offline'' 6), Send ''c4'' (Presence ''B'' ''offline'' 6)]"
    by (simp add: broadcast_room_def closed_socket_def broken_socket_def room_eval)
  have e: "deliveries PresencePing (presenceSubscribers broadcast_presence) =
             [Send ''p1'' PresencePing, Throw ''p3'' PresencePing]"
     "deadIds (presenceSubscribers broadcast_presence) = [''p2'', ''p3'']"
     "filter (\<lambda>(c, ws). healthy ws) (presenceSubscribers broadcast_presence) = [(''p1'', accepted)]"
     "filter (\<lambda>(c, ws). healthy ws) (connections broadcast_room)
        = [(''c1'', accepted), (''c4'', accepted)]"
    by (simp_all add: broadcast_presence_def new_presence_def deliveries_def deadIds_def
          healthy_def accepted_def closed_socket_def broken_socket_def broadcast_room_def)
  note t = broadcast_reaches_open_prunes_closed[OF h1 h2 h3,
        of "Typing ''A'' True 5" 6 PresencePing]
  have c: "connections (broadcastMessage (Typing ''A'' True 5) 6 broadcast_room) =
             [(''c1'', accepted), (''c4'', accepted)]"
    using t[THEN conjunct2, THEN conjunct2, THEN conjunct1] e(4) by simp
  have pw: "presence_wire (broadcastPresenceUpdate PresencePing broadcast_presence) =
     [Send ''p1'' PresencePing, Throw ''p3'' PresencePing, Close ''p2'', Close ''p3'']"
    using t[THEN conjunct2, THEN conjunct2, THEN conjunct2, THEN conjunct2, THEN conjunct2,
            THEN conjunct2, THEN conjunct1] e(1,2)
    by (simp add: broadcast_presence_def new_presence_def)
  have ps: "presenceSubscribers (broadcastPresenceUpdate PresencePing broadcast_presence) =
     [(''p1'', accepted)]"
    using t[THEN conjunct2, THEN conjunct2, THEN conjunct2, THEN conjunct2, THEN conjunct2,
            THEN conjunct2, THEN conjunct2, THEN conjunct1] e(3) by simp
  show ?thesis
    using h1 h2 h3 w c pw ps by (intro conjI)
qed

text \<open>
  C2. Registry invariant of the room. After every finite sequence of operations on a room
  (subscribe, close and error events, heartbeat ticks, the handlers that broadcast and so
  prune, frames from clients, and transports changing state), started in a state where the
  invariant holds and in which every subscribe carries an id that is not registered at that
  moment (ids come from \<open>crypto.randomUUID()\<close>): a connection id is a key of \<open>connections\<close>
  if and only if it is in a set of \<open>userConnections\<close>, and then in the set of exactly one
  user.
\<close>

theorem registry_invariant:
  assumes "registry_ok s" and "fresh_ids ops s"
  shows "registry_ok (room_run ops s) \<and>
         (\<forall>c. c \<in> fst ` set (connections (room_run ops s)) \<longleftrightarrow>
              (\<exists>!u. \<exists>ids. (u, ids) \<in> set (userConnections (room_run ops s)) \<and> c \<in> ids))"
proof -
  have ok: "registry_ok (room_run ops s)" by (rule registry_ok_run[OF assms])
  then show ?thesis using registry_ok_unique_owner[OF ok] by blast
qed

theorem registry_invariant_witness:
  "registry_ok new_room \<and> fresh_ids registry_scenario new_room \<and>
   registry_ok (room_run registry_scenario new_room) \<and>
   connections (room_run registry_scenario new_room) = [(''c2'', accepted)] \<and>
   userConnections (room_run registry_scenario new_room) = [(''A'', {''c2''})]"
proof -
  have h1: "registry_ok new_room" by (simp add: new_room_def registry_ok_def)
  have h2: "fresh_ids registry_scenario new_room"
    by (simp add: registry_scenario_def room_eval)
  have "connections (room_run registry_scenario new_room) = [(''c2'', accepted)]"
       "userConnections (room_run registry_scenario new_room) = [(''A'', {''c2''})]"
    by (simp_all add: registry_scenario_def room_eval)
  then show ?thesis using h1 h2 registry_invariant[OF h1 h2] by simp
qed

text \<open>
  C3, as the claim states it, fails: after the one connection that user u1 opened is
  unregistered, the status of u1 is still \<open>online\<close> and the other subscriber has been sent
  nothing beyond the snapshot it got when it subscribed.
\<close>

theorem presence_disconnect_counterexample:
  "map (\<lambda>p. (presence_userId p, status p))
     (getAllPresence (removePresenceSubscriber ''c1'' disconnect_scene)) = [(''u1'', online)] \<and>
   map fst (presenceSubscribers (removePresenceSubscriber ''c1'' disconnect_scene)) = [''c2''] \<and>
   frames ''c2'' (presence_wire (removePresenceSubscriber ''c1'' disconnect_scene)) =
     [PresenceState
        [\<lparr>presence_userId = ''u1'', status = online, lastSeenAt = 1000, deviceInfo = None,
          currentChatId = None, isTyping = None, typingInChatId = None\<rparr>] [] 1002]"
  by (simp add: getAllPresence_def disconnect_scene_def presence_handlers_eval presence_eval)

text \<open>
  C3, amended. The presence object registers subscribers without a user. Unregistering a
  connection there, whichever connection it is, closes it and deletes it from the
  subscriber map, and deletes its entry from the heartbeat-timer map unless the timer id
  stored there is 0 (the timer is cleared under \<open>if (interval)\<close>). Nothing else happens: no
  presence record changes, no typing indicator changes, nothing is written to storage,
  and no subscriber is sent anything.
\<close>

theorem presence_unsubscribe_is_bookkeeping:
  "userPresence (removePresenceSubscriber c s) = userPresence s \<and>
   typingIndicators (removePresenceSubscriber c s) = typingIndicators s \<and>
   storage (removePresenceSubscriber c s) = storage s \<and>
   presenceSubscribers (removePresenceSubscriber c s) = AList.delete c (presenceSubscribers s) \<and>
   heartbeatIntervals_presence (removePresenceSubscriber c s) =
     (if map_of (heartbeatIntervals_presence s) c = Some 0 then heartbeatIntervals_presence s
      else AList.delete c (heartbeatIntervals_presence s)) \<and>
   presence_wire (removePresenceSubscriber c s) =
     presence_wire s @ (if c \<in> fst ` set (presenceSubscribers s) then [Close c] else []) \<and>
   frames c' (presence_wire (removePresenceSubscriber c s)) = frames c' (presence_wire s)"
  by (simp add: removePresenceSubscriber_heartbeats cleared_one)

theorem presence_unsubscribe_is_bookkeeping_witness:
  "userPresence (removePresenceSubscriber ''c1'' disconnect_scene) = userPresence disconnect_scene \<and>
   presenceSubscribers (removePresenceSubscriber ''c1'' disconnect_scene) = [(''c2'', accepted)] \<and>
   heartbeatIntervals_presence disconnect_scene = [(''c1'', 1), (''c2'', 2)] \<and>
   heartbeatIntervals_presence (removePresenceSubscriber ''c1'' disconnect_scene) = [(''c2'', 2)] \<and>
   presence_wire (removePresenceSubscriber ''c1'' disconnect_scene) =
     presence_wire disconnect_scene @ [Close ''c1'']"
proof -
  have k: "presenceSubscribers disconnect_scene = [(''c1'', accepted), (''c2'', accepted)]"
    by (simp add: disconnect_scene_def presence_handlers_eval presence_eval)
  have t: "heartbeatIntervals_presence disconnect_scene = [(''c1'', 1), (''c2'', 2)]"
    by (simp add: disconnect_scene_def presence_handlers_eval presence_eval)
  show ?thesis
    using presence_unsubscribe_is_bookkeeping[of "''c1''" disconnect_scene] k t by simp
qed

text \<open>
  C4, as the claim states it, fails: when the only connection of user A is removed from a
  room in which user B is connected, B's connection is sent a \<open>presence\<close> event.
\<close>

theorem last_connection_counterexample:
  "owner ''c1'' two_user_room = Some (''A'', {''c1''}) \<and>
   frames ''c2'' (wire (removeConnection ''c1'' 50 two_user_room)) =
     [Presence ''A'' ''offline'' 50]"
  by (simp add: two_user_room_def owner_def room_eval)

text \<open>
  C4, amended. Removing the last connection \<open>c\<close> of user \<open>u\<close> from a room closes the stream
  and is bookkeeping followed by a broadcast. The bookkeeping: \<open>c\<close> leaves the id-to-stream
  map, the entry of \<open>u\<close> leaves the user-to-id-set map, whose sets hold the ids of the
  connections that remain and no other, and the entry of \<open>c\<close> leaves the heartbeat-timer
  map unless the timer id stored there is 0 (the timer is cleared under \<open>if (interval)\<close>). The broadcast: after the close, the event
  \<open>{type: "presence", data: {userId: u, status: "offline"}}\<close> is sent to every remaining
  connection that reports open, and the connections that this broadcast finds dead are
  unregistered in the same way. \<open>typingUsers\<close> is unchanged.
\<close>

theorem last_connection_broadcasts_offline:
  assumes "registry_ok s"
    and "distinct (map fst (connections s))"
    and "distinct (map fst (heartbeatIntervals s))"
    and "owner c s = Some (u, ids)" and "ids - {c} = {}"
  shows "connections (removeConnection c now s) =
           filter (\<lambda>(k, ws). k \<noteq> c \<and> healthy ws) (connections s) \<and>
         u \<notin> fst ` set (userConnections (removeConnection c now s)) \<and>
         \<Union> (snd ` set (userConnections (removeConnection c now s))) =
           fst ` set (filter (\<lambda>(k, ws). k \<noteq> c \<and> healthy ws) (connections s)) \<and>
         heartbeatIntervals (removeConnection c now s) =
           filter (\<lambda>(k, i). i = 0 \<or> (k \<noteq> c \<and> k \<notin> set (deadIds (connections s))))
             (heartbeatIntervals s) \<and>
         typingUsers (removeConnection c now s) = typingUsers s \<and>
         (\<exists>d. wire (removeConnection c now s) =
                wire s @ [Close c]
                  @ deliveries (Presence u ''offline'' now) (AList.delete c (connections s))
                  @ d \<and>
              list_all prune_io d)"
proof -
  let ?s' = "removeConnection c now s"
  let ?s2 = "(detach c s)\<lparr>userConnections := AList.delete u (userConnections s)\<rparr>"
  have conns: "connections ?s' = filter (\<lambda>(k, ws). k \<noteq> c \<and> healthy ws) (connections s)"
    by (rule last_connection_connections[OF assms(2,4,5)])
  have user: "u \<notin> fst ` set (userConnections ?s')"
    by (rule last_connection_users[OF assms(4,5)])
  have "registry_ok ?s'" by (rule registry_ok_preserved(3)[OF assms(1)])
  then have sets: "\<Union> (snd ` set (userConnections ?s')) =
                     fst ` set (filter (\<lambda>(k, ws). k \<noteq> c \<and> healthy ws) (connections s))"
    unfolding conns[symmetric] by (simp add: registry_ok_def)
  have timers: "heartbeatIntervals ?s' =
      filter (\<lambda>(k, i). i = 0 \<or> (k \<noteq> c \<and> k \<notin> set (deadIds (connections s))))
        (heartbeatIntervals s)"
    by (rule last_connection_heartbeats[OF assms(3,4,5)])
  have "c \<in> \<Union> (snd ` set (userConnections s))"
    using owner_Some[OF assms(4)] by force
  then have key: "c \<in> fst ` set (connections s)"
    using assms(1) by (simp add: registry_ok_def)
  have eq: "?s' = broadcastMessage (Presence u ''offline'' now) now ?s2"
    by (rule removeConnection_last[OF assms(4,5)])
  obtain d where d: "wire (broadcastMessage (Presence u ''offline'' now) now ?s2) =
      wire ?s2 @ deliveries (Presence u ''offline'' now) (connections ?s2) @ d"
      "list_all prune_io d"
    using wire_extension(1)[of "Presence u ''offline'' now" now ?s2] by blast
  have "wire ?s' =
          wire s @ [Close c]
            @ deliveries (Presence u ''offline'' now) (AList.delete c (connections s)) @ d"
    unfolding eq d(1) using key by (simp add: detach_wire)
  with d(2) have w: "\<exists>d. wire ?s' =
                wire s @ [Close c]
                  @ deliveries (Presence u ''offline'' now) (AList.delete c (connections s))
                  @ d \<and>
              list_all prune_io d" by blast
  show ?thesis
    using conns user sets timers typingUsers_frame(3)[of c now s] w by (intro conjI)
qed

theorem last_connection_broadcasts_offline_witness:
  "registry_ok two_user_room \<and>
   distinct (map fst (connections two_user_room)) \<and>
   distinct (map fst (heartbeatIntervals two_user_room)) \<and>
   owner ''c1'' two_user_room = Some (''A'', {''c1''}) \<and> {''c1''} - {''c1''} = ({} :: string set) \<and>
   heartbeatIntervals two_user_room = [(''c1'', 1), (''c2'', 2)] \<and>
   connections (removeConnection ''c1'' 50 two_user_room) = [(''c2'', accepted)] \<and>
   userConnections (removeConnection ''c1'' 50 two_user_room) = [(''B'', {''c2''})] \<and>
   heartbeatIntervals (removeConnection ''c1'' 50 two_user_room) = [(''c2'', 2)] \<and>
   wire (removeConnection ''c1'' 50 two_user_room) =
     [Close ''c1'', Send ''c2'' (Presence ''A'' ''offline'' 50)]"
proof -
  have c: "connections two_user_room = [(''c1'', accepted), (''c2'', accepted)]"
    by (simp add: two_user_room_def room_eval)
  have t: "heartbeatIntervals two_user_room = [(''c1'', 1), (''c2'', 2)]"
    by (simp add: two_user_room_def room_eval)
  have uc: "userConnections two_user_room = [(''A'', {''c1''}), (''B'', {''c2''})]"
    by (simp add: two_user_room_def room_eval)
  have h1: "registry_ok two_user_room" by (auto simp: registry_ok_def c uc)
  have h2: "distinct (map fst (connections two_user_room))" by (simp add: c)
  have h3: "distinct (map fst (heartbeatIntervals two_user_room))" by (simp add: t)
  have h4: "owner ''c1'' two_user_room = Some (''A'', {''c1''})"
    by (simp add: owner_def uc)
  have h5: "{''c1''} - {''c1''} = ({} :: string set)" by simp
  have u: "userConnections (removeConnection ''c1'' 50 two_user_room) = [(''B'', {''c2''})]"
    by (simp add: two_user_room_def room_eval)
  have w: "wire (removeConnection ''c1'' 50 two_user_room) =
             [Close ''c1'', Send ''c2'' (Presence ''A'' ''offline'' 50)]"
    by (simp add: two_user_room_def room_eval)
  have dead: "deadIds (connections two_user_room) = []"
    by (simp add: c deadIds_def healthy_def accepted_def)
  note inst = last_connection_broadcasts_offline[OF h1 h2 h3 h4 h5, of 50]
  have r1: "connections (removeConnection ''c1'' 50 two_user_room) = [(''c2'', accepted)]"
    using inst[THEN conjunct1] by (simp add: c healthy_def accepted_def)
  have r2: "heartbeatIntervals (removeConnection ''c1'' 50 two_user_room) = [(''c2'', 2)]"
    using inst[THEN conjunct2, THEN conjunct2, THEN conjunct2, THEN conjunct1]
    by (simp add: t dead)
  show ?thesis using h1 h2 h3 h4 h5 t r1 u r2 w by (intro conjI)
qed

text \<open>
  C5. Take a state in which the indicator that user \<open>u\<close> set for chat \<open>chat\<close> at time \<open>T\<close>
  is stored (it has not been stopped). It is reported by \<open>getTypingIndicators\<close>; a sweep at
  a time \<open>now\<close> with \<open>now - T \<le> 10000\<close>, so at any time before \<open>T\<close> plus 10 seconds, keeps
  it reported; a sweep at a time \<open>now\<close> with \<open>now - T > 10000\<close> removes it, no indicator of
  \<open>u\<close> is reported for the chat any more, and every subscriber that is registered, open
  and whose send returns is sent exactly one \<open>typing_stop\<close> for \<open>u\<close> and \<open>chat\<close> by that
  sweep.
\<close>

theorem typing_expiry:
  assumes "typing_ok s"
    and "map_of (typingIndicators s) (typing_key u chat) = Some ind"
    and "ind = \<lparr>indicator_userId = u, indicator_chatId = chat, indicator_timestamp = T\<rparr>"
  shows "ind \<in> set (getTypingIndicators chat s) \<and>
         (now - T \<le> 10000 \<longrightarrow>
            ind \<in> set (getTypingIndicators chat (cleanupExpiredTypingIndicators now s))) \<and>
         (now - T > 10000 \<longrightarrow>
            map_of (typingIndicators (cleanupExpiredTypingIndicators now s)) (typing_key u chat)
              = None \<and>
            filter (\<lambda>i. indicator_userId i = u)
              (getTypingIndicators chat (cleanupExpiredTypingIndicators now s)) = [] \<and>
            (\<forall>c. listening c s \<longrightarrow>
               filter (is_typing_stop_for u chat)
                 (frames c (presence_wire (cleanupExpiredTypingIndicators now s))) =
               filter (is_typing_stop_for u chat) (frames c (presence_wire s))
                 @ [TypingStop u chat now]))"
proof -
  let ?al = "typingIndicators s"
  let ?key = "typing_key u chat"
  let ?stale = "\<lambda>(key :: string, indicator). now - indicator_timestamp indicator > 10000"
  let ?s' = "cleanupExpiredTypingIndicators now s"
  from assms(1) have d: "distinct (map fst ?al)"
    and cons: "\<And>e. e \<in> set ?al \<Longrightarrow>
                 fst e = typing_key (indicator_userId (snd e)) (indicator_chatId (snd e))"
    by (auto simp: typing_ok_def)
  have mem: "(?key, ind) \<in> set ?al" using assms(2) by (rule map_of_SomeD)
  have ind: "indicator_userId ind = u" "indicator_chatId ind = chat" "indicator_timestamp ind = T"
    by (simp_all add: assms(3))
  have only: "i = ind" if "(?key, i) \<in> set ?al" for i
    using d mem that by (metis eq_key_imp_eq_value)
  have after: "typingIndicators ?s' = filter (\<lambda>e. fst e \<notin> set (expiredKeys now ?al)) ?al"
    by (simp add: cleanupExpiredTypingIndicators_def expire_fold_indicators)
  have expired: "?key \<in> set (expiredKeys now ?al) \<longleftrightarrow> now - T > 10000"
  proof
    assume "?key \<in> set (expiredKeys now ?al)"
    then obtain i where i: "(?key, i) \<in> set ?al" "now - indicator_timestamp i > 10000"
      by (auto simp: expiredKeys_def)
    from only[OF i(1)] have "indicator_timestamp i = T" using ind by simp
    with i(2) show "now - T > 10000" by simp
  next
    assume "now - T > 10000"
    then have "(?key, ind) \<in> set (filter ?stale ?al)" using mem ind(3) by simp
    then have "fst (?key, ind) \<in> fst ` set (filter ?stale ?al)" by (rule imageI)
    then show "?key \<in> set (expiredKeys now ?al)"
      unfolding expiredKeys_def by simp
  qed
  have in_chat: "ind \<in> set (getTypingIndicators chat st)"
    if "(?key, ind) \<in> set (typingIndicators st)" for st
  proof -
    from that have "snd (?key, ind) \<in> snd ` set (typingIndicators st)" by (rule imageI)
    then show ?thesis using ind(2) by (simp add: getTypingIndicators_def)
  qed
  have reported: "ind \<in> set (getTypingIndicators chat s)"
    by (rule in_chat[OF mem])
  have early: "ind \<in> set (getTypingIndicators chat ?s')" if "now - T \<le> 10000"
  proof -
    have "?key \<notin> set (expiredKeys now ?al)" using expired that by simp
    then have "(?key, ind) \<in> set (typingIndicators ?s')" using mem by (simp add: after)
    then show ?thesis by (rule in_chat)
  qed
  have late1: "map_of (typingIndicators ?s') ?key = None" if gt: "now - T > 10000"
  proof -
    have "?key \<in> set (expiredKeys now ?al)" using expired gt by simp
    then show ?thesis unfolding after by (rule map_of_filter_out)
  qed
  have late2: "filter (\<lambda>i. indicator_userId i = u) (getTypingIndicators chat ?s') = []"
    if gt: "now - T > 10000"
  proof (rule ccontr)
    have k: "?key \<in> set (expiredKeys now ?al)" using expired gt by simp
    assume "filter (\<lambda>i. indicator_userId i = u) (getTypingIndicators chat ?s') \<noteq> []"
    then have "\<exists>i \<in> set (getTypingIndicators chat ?s'). indicator_userId i = u"
      by (simp add: filter_empty_conv)
    then obtain i where i: "i \<in> set (getTypingIndicators chat ?s')" "indicator_userId i = u"
      by blast
    then obtain k' where k': "(k', i) \<in> set ?al" "k' \<notin> set (expiredKeys now ?al)"
      "indicator_chatId i = chat"
      by (auto simp: getTypingIndicators_def after)
    from cons[OF k'(1)] i(2) k'(3) have "k' = ?key" by simp
    with k k'(2) show False by simp
  qed
  have late3: "filter (is_typing_stop_for u chat) (frames c (presence_wire ?s')) =
               filter (is_typing_stop_for u chat) (frames c (presence_wire s))
                 @ [TypingStop u chat now]"
    if gt: "now - T > 10000" and l: "listening c s" for c
  proof -
    let ?f = "\<lambda>(key :: string, indicator).
                TypingStop (indicator_userId indicator) (indicator_chatId indicator) now"
    let ?P = "\<lambda>e. ?stale e \<and> is_typing_stop_for u chat (?f e)"
    have single: "filter ?P ?al = [(?key, ind)]"
    proof (rule filter_single[OF d mem])
      show "?P (?key, ind)" using gt ind by simp
      fix e assume e: "e \<in> set ?al" "?P e"
      obtain k' i where ki: "e = (k', i)" by (cases e)
      from e(2) ki have "indicator_userId i = u" "indicator_chatId i = chat" by simp_all
      with cons[OF e(1)] ki show "fst e = ?key" by simp
    qed
    have "filter (is_typing_stop_for u chat) (sweep_stops now ?al) = map ?f (filter ?P ?al)"
      unfolding sweep_stops_def by (simp add: filter_map comp_def)
    also have "\<dots> = [TypingStop u chat now]" using single ind by simp
    finally show ?thesis
      using cleanup_frames[OF l d, of now] by simp
  qed
  from reported early late1 late2 late3 show ?thesis by blast
qed


theorem typing_expiry_witness:
  "typing_ok typing_watch_scene \<and>
   map_of (typingIndicators typing_watch_scene) (typing_key ''u1'' ''chat1'') =
     Some \<lparr>indicator_userId = ''u1'', indicator_chatId = ''chat1'', indicator_timestamp = 0\<rparr> \<and>
   listening ''c9'' typing_watch_scene \<and>
   \<lparr>indicator_userId = ''u1'', indicator_chatId = ''chat1'', indicator_timestamp = 0\<rparr>
     \<in> set (getTypingIndicators ''chat1'' (cleanupExpiredTypingIndicators 9000 typing_watch_scene)) \<and>
   map_of (typingIndicators (cleanupExpiredTypingIndicators 11000 typing_watch_scene))
     (typing_key ''u1'' ''chat1'') = None \<and>
   filter (is_typing_stop_for ''u1'' ''chat1'')
     (frames ''c9'' (presence_wire (cleanupExpiredTypingIndicators 11000 typing_watch_scene))) =
     [TypingStop ''u1'' ''chat1'' 11000]"
proof -
  let ?ind = "\<lparr>indicator_userId = ''u1'', indicator_chatId = ''chat1'', indicator_timestamp = 0\<rparr>"
  have st: "typingIndicators typing_watch_scene = [(''u1:chat1'', ?ind)]"
      "presenceSubscribers typing_watch_scene = [(''c9'', accepted)]"
      "frames ''c9'' (presence_wire typing_watch_scene) = [PresenceState [] [?ind] 1]"
    by (simp_all add: typing_watch_scene_def stale_typing_scene_def presence_handlers_eval
          presence_eval)
  have h1: "typing_ok typing_watch_scene"
    by (simp add: typing_ok_def st typing_key_def)
  have h2: "map_of (typingIndicators typing_watch_scene) (typing_key ''u1'' ''chat1'') = Some ?ind"
    by (simp add: st typing_key_def)
  have l: "listening ''c9'' typing_watch_scene"
    by (simp add: listening_def st healthy_def accepted_def)
  note early = typing_expiry[OF h1 h2 refl, of 9000, THEN conjunct2, THEN conjunct1]
  note late = typing_expiry[OF h1 h2 refl, of 11000, THEN conjunct2, THEN conjunct2]
  have a: "?ind \<in> set (getTypingIndicators ''chat1''
                          (cleanupExpiredTypingIndicators 9000 typing_watch_scene))"
    using early by simp
  have b: "map_of (typingIndicators (cleanupExpiredTypingIndicators 11000 typing_watch_scene))
             (typing_key ''u1'' ''chat1'') = None"
    using late by simp
  have c: "filter (is_typing_stop_for ''u1'' ''chat1'')
             (frames ''c9'' (presence_wire (cleanupExpiredTypingIndicators 11000
                                              typing_watch_scene))) =
           [TypingStop ''u1'' ''chat1'' 11000]"
    using late l st(3) by simp
  from h1 h2 l a b c show ?thesis by (intro conjI)
qed

text \<open>
  C6, as the claim states it, fails on "unchanged": a sweep at time 12000 finds u1 online
  and last seen at 1000, well inside the five minutes, and u2 away, and it rewrites both
  records, because it expires their typing indicators.
\<close>

theorem presence_sweep_counterexample:
  "map_of (userPresence sweep_scene) ''u1'' =
     Some \<lparr>presence_userId = ''u1'', status = online, lastSeenAt = 1000, deviceInfo = None,
           currentChatId = None, isTyping = Some True, typingInChatId = Some ''chat1''\<rparr> \<and>
   map_of (userPresence (alarm 12000 12000 sweep_scene)) ''u1'' =
     Some \<lparr>presence_userId = ''u1'', status = online, lastSeenAt = 1000, deviceInfo = None,
           currentChatId = None, isTyping = Some False, typingInChatId = None\<rparr> \<and>
   map_of (userPresence sweep_scene) ''u2'' =
     Some \<lparr>presence_userId = ''u2'', status = away, lastSeenAt = 1000, deviceInfo = None,
           currentChatId = None, isTyping = Some True, typingInChatId = Some ''chat1''\<rparr> \<and>
   map_of (userPresence (alarm 12000 12000 sweep_scene)) ''u2'' =
     Some \<lparr>presence_userId = ''u2'', status = away, lastSeenAt = 1000, deviceInfo = None,
           currentChatId = None, isTyping = Some False, typingInChatId = None\<rparr>"
  by (simp add: sweep_scene_def sweep_eval presence_handlers_eval presence_eval)

text \<open>
  C6, amended. The sweep (\<open>alarm\<close>) changes the record \<open>p\<close> of a user \<open>u\<close> in two ways
  only. If \<open>p\<close> is online and last seen more than 300000 ms before the time the sweep
  reads for the presence pass, the status becomes offline and every subscriber that is
  registered, open and whose send returns is sent exactly one \<open>presence_update\<close> for \<open>u\<close>,
  carrying the new record; otherwise the status stays and no \<open>presence_update\<close> for \<open>u\<close>
  is sent. If the typing pass of the same sweep expires an indicator of \<open>u\<close>, the two typing
  fields of the record are cleared. Every other field keeps its value: a record that is
  inside the window, or away, or offline, and whose user has no expiring indicator, is
  unchanged.
\<close>

theorem presence_sweep:
  assumes "presence_ok s" and "distinct (map fst (typingIndicators s))"
    and "map_of (userPresence s) u = Some p"
    and "q = (let p1 = (if u \<in> expiring_users now s then clear_typing p else p)
              in if stale_online (now' - 300000) p then p1\<lparr>status := offline\<rparr> else p1)"
  shows "map_of (userPresence (alarm now now' s)) u = Some q \<and>
         (\<forall>c. listening c s \<longrightarrow>
            filter (is_presence_update_for u) (frames c (presence_wire (alarm now now' s))) =
            filter (is_presence_update_for u) (frames c (presence_wire s))
              @ (if stale_online (now' - 300000) p then [PresenceUpdate q] else []))"
proof -
  let ?t = "now' - 300000"
  let ?s1 = "cleanupExpiredTypingIndicators now s"
  let ?p1 = "if u \<in> expiring_users now s then clear_typing p else p"
  from assms(1) have d: "distinct (map fst (userPresence s))"
    by (simp add: presence_ok_def)
  have up1: "userPresence ?s1 =
               map (\<lambda>(k', p). (k', if k' \<in> expiring_users now s then clear_typing p else p))
                 (userPresence s)"
    by (rule cleanup_presence[OF d assms(2)])
  have ok1: "presence_ok ?s1" by (rule presence_ok_cleanup[OF assms(1,2)])
  then have d1: "distinct (map fst (userPresence ?s1))"
    and c1: "\<And>e. e \<in> set (userPresence ?s1) \<Longrightarrow> presence_userId (snd e) = fst e"
    by (simp_all add: presence_ok_def)
  have look1: "map_of (userPresence ?s1) u = Some ?p1"
    unfolding up1 using assms(3)
    by (simp add: map_of_map_keyed[where f = "\<lambda>k p. if k \<in> expiring_users now s
                                                then clear_typing p else p"])
  have mem1: "(u, ?p1) \<in> set (userPresence ?s1)" using look1 by (rule map_of_SomeD)
  have stale1: "stale_online ?t ?p1 = stale_online ?t p" by simp
  have q: "q = (if stale_online ?t p then ?p1\<lparr>status := offline\<rparr> else ?p1)"
    using assms(4) by (simp add: Let_def)
  have al: "alarm now now' s = fold (demoteStale ?t) (userPresence ?s1) ?s1"
    by (simp add: alarm_def Let_def)
  have "userPresence (alarm now now' s) =
          map (\<lambda>(k', p). (k', case map_of (userPresence ?s1) k' of
                                 Some p' \<Rightarrow> if stale_online ?t p' then p'\<lparr>status := offline\<rparr> else p
                               | None \<Rightarrow> p))
            (userPresence ?s1)"
    unfolding al by (rule demote_fold_presence[OF d1 d1 subset_refl])
  then have "map_of (userPresence (alarm now now' s)) u =
               map_option (\<lambda>p. case map_of (userPresence ?s1) u of
                                 Some p' \<Rightarrow> if stale_online ?t p' then p'\<lparr>status := offline\<rparr> else p
                               | None \<Rightarrow> p) (map_of (userPresence ?s1) u)"
    by (simp add: map_of_map_keyed[where f = "\<lambda>k p. case map_of (userPresence ?s1) k of
                                 Some p' \<Rightarrow> if stale_online ?t p' then p'\<lparr>status := offline\<rparr> else p
                               | None \<Rightarrow> p"])
  then have rec: "map_of (userPresence (alarm now now' s)) u = Some q"
    unfolding look1 q using stale1 by simp
  have fr: "filter (is_presence_update_for u) (frames c (presence_wire (alarm now now' s))) =
            filter (is_presence_update_for u) (frames c (presence_wire s))
              @ (if stale_online ?t p then [PresenceUpdate q] else [])"
    if l: "listening c s" for c
  proof -
    let ?f = "\<lambda>(k :: string, p). PresenceUpdate (p\<lparr>status := offline\<rparr>)"
    let ?P = "\<lambda>e. (case e of (k :: string, p) \<Rightarrow> stale_online ?t p) \<and>
                   is_presence_update_for u (?f e)"
    from cleanup_frames[OF l assms(2), of now]
    have l1: "listening c ?s1"
      and f1: "frames c (presence_wire ?s1) =
                 frames c (presence_wire s) @ sweep_stops now (typingIndicators s)"
      by simp_all
    from demote_fold_frames[OF l1, of ?t "userPresence ?s1"]
    have f2: "frames c (presence_wire (alarm now now' s)) =
                frames c (presence_wire ?s1) @
                  map ?f (filter (\<lambda>(k, p). stale_online ?t p) (userPresence ?s1))"
      unfolding al by simp
    have key: "fst e = u" if "e \<in> set (userPresence ?s1)" "?P e" for e
    proof -
      obtain k' p' where e: "e = (k', p')" by (cases e)
      from that(2) e have "presence_userId p' = u" by simp
      with c1[OF that(1)] e show ?thesis by simp
    qed
    have sel: "filter ?P (userPresence ?s1) = (if stale_online ?t p then [(u, ?p1)] else [])"
    proof (cases "stale_online ?t p")
      case True
      have "?P (u, ?p1)" using True c1[OF mem1] by simp
      from filter_single[OF d1 mem1, of ?P, OF this key] True show ?thesis by simp
    next
      case False
      have "\<not> ?P e" if m: "e \<in> set (userPresence ?s1)" for e
      proof
        assume P: "?P e"
        from key[OF m P] have "fst e = u" .
        then have "e = (u, ?p1)"
          using d1 m mem1 by (metis eq_key_imp_eq_value prod.collapse)
        with P False stale1 show False by simp
      qed
      then have "filter ?P (userPresence ?s1) = []" by (simp add: filter_empty_conv)
      with False show ?thesis by simp
    qed
    have "filter (is_presence_update_for u)
            (map ?f (filter (\<lambda>(k, p). stale_online ?t p) (userPresence ?s1))) =
          map ?f (filter ?P (userPresence ?s1))"
      by (simp add: filter_map comp_def case_prod_beta)
    also have "\<dots> = (if stale_online ?t p then [PresenceUpdate q] else [])"
      unfolding sel q by simp
    finally show ?thesis
      unfolding f2 f1 by (simp add: sweep_stops_no_update)
  qed
  from rec fr show ?thesis by blast
qed


theorem presence_sweep_witness:
  "presence_ok sweep_scene \<and> distinct (map fst (typingIndicators sweep_scene)) \<and>
   listening ''c9'' sweep_scene \<and>
   map_of (userPresence sweep_scene) ''u1'' =
     Some \<lparr>presence_userId = ''u1'', status = online, lastSeenAt = 1000, deviceInfo = None,
           currentChatId = None, isTyping = Some True, typingInChatId = Some ''chat1''\<rparr> \<and>
   map_of (userPresence (alarm 5000 5000 sweep_scene)) ''u1'' =
     Some \<lparr>presence_userId = ''u1'', status = online, lastSeenAt = 1000, deviceInfo = None,
           currentChatId = None, isTyping = Some True, typingInChatId = Some ''chat1''\<rparr> \<and>
   map_of (userPresence (alarm 301001 301001 sweep_scene)) ''u1'' =
     Some \<lparr>presence_userId = ''u1'', status = offline, lastSeenAt = 1000, deviceInfo = None,
           currentChatId = None, isTyping = Some False, typingInChatId = None\<rparr> \<and>
   filter (is_presence_update_for ''u1'')
     (frames ''c9'' (presence_wire (alarm 301001 301001 sweep_scene))) =
     [PresenceUpdate
        \<lparr>presence_userId = ''u1'', status = offline, lastSeenAt = 1000, deviceInfo = None,
          currentChatId = None, isTyping = Some False, typingInChatId = None\<rparr>]"
proof -
  let ?p = "\<lparr>presence_userId = ''u1'', status = online, lastSeenAt = 1000, deviceInfo = None,
            currentChatId = None, isTyping = Some True, typingInChatId = Some ''chat1''\<rparr>"
  let ?q = "\<lparr>presence_userId = ''u1'', status = offline, lastSeenAt = 1000, deviceInfo = None,
            currentChatId = None, isTyping = Some False, typingInChatId = None\<rparr>"
  have st: "userPresence sweep_scene =
              [(''u1'', ?p),
               (''u2'', \<lparr>presence_userId = ''u2'', status = away, lastSeenAt = 1000,
                         deviceInfo = None, currentChatId = None, isTyping = Some True,
                         typingInChatId = Some ''chat1''\<rparr>)]"
      "typingIndicators sweep_scene =
         [(''u1:chat1'', \<lparr>indicator_userId = ''u1'', indicator_chatId = ''chat1'',
                           indicator_timestamp = 1000\<rparr>),
          (''u2:chat1'', \<lparr>indicator_userId = ''u2'', indicator_chatId = ''chat1'',
                           indicator_timestamp = 1000\<rparr>)]"
      "presenceSubscribers sweep_scene = [(''c9'', accepted)]"
    by (simp_all add: sweep_scene_def presence_handlers_eval presence_eval)
  have fr: "filter (is_presence_update_for ''u1'') (frames ''c9'' (presence_wire sweep_scene)) = []"
    by (simp add: sweep_scene_def presence_handlers_eval presence_eval)
  have h1: "presence_ok sweep_scene" by (simp add: presence_ok_def st)
  have h2: "distinct (map fst (typingIndicators sweep_scene))" by (simp add: st)
  have h3: "map_of (userPresence sweep_scene) ''u1'' = Some ?p" by (simp add: st)
  have l: "listening ''c9'' sweep_scene"
    by (simp add: listening_def st healthy_def accepted_def)
  have e: "''u1'' \<notin> expiring_users 5000 sweep_scene" "''u1'' \<in> expiring_users 301001 sweep_scene"
    by (simp_all add: expiring_users_def st)
  have a: "map_of (userPresence (alarm 5000 5000 sweep_scene)) ''u1'' = Some ?p"
    using presence_sweep[OF h1 h2 h3 refl, of 5000 5000, THEN conjunct1] e(1)
    by (simp add: stale_online_def)
  note late = presence_sweep[OF h1 h2 h3 refl, of 301001 301001]
  have b: "map_of (userPresence (alarm 301001 301001 sweep_scene)) ''u1'' = Some ?q"
    using late[THEN conjunct1] e(2) by (simp add: stale_online_def clear_typing_def)
  have c: "filter (is_presence_update_for ''u1'')
             (frames ''c9'' (presence_wire (alarm 301001 301001 sweep_scene))) =
           [PresenceUpdate ?q]"
    using late[THEN conjunct2] l fr e(2) by (simp add: stale_online_def clear_typing_def)
  from h1 h2 l h3 a b c show ?thesis by (intro conjI)
qed

text \<open>
  C7, as the claim states it, fails on the typing list: a subscriber that connects at time
  60000 is sent the indicator that was set at time 0, which the sweep at that time would
  expire.
\<close>

theorem snapshot_counterexample:
  "expiredKeys 60000 (typingIndicators stale_typing_scene) = [''u1:chat1''] \<and>
   frames ''c9'' (presence_wire (snd (handleWebSocketUpgrade_presence (upgrade_request ''u2'') ''c9'' 1
                                        60000 stale_typing_scene))) =
     [PresenceState []
        [\<lparr>indicator_userId = ''u1'', indicator_chatId = ''chat1'', indicator_timestamp = 0\<rparr>]
        60000]"
  by (simp add: stale_typing_scene_def expiredKeys_def presence_handlers_eval presence_eval)

text \<open>
  C7, amended. A connection that subscribes to the presence object is answered with 101
  and is sent, alone and before the method returns, one snapshot: its user list is every
  stored presence record and its typing list is every stored typing indicator, whatever
  the age of the indicator.
\<close>

theorem snapshot_on_subscribe:
  assumes "upgradeHeader request = Some ''websocket''"
  shows "fst (handleWebSocketUpgrade_presence request c interval now s) =
           Inr \<lparr>status_code = 101, body = WebSocketClient c\<rparr> \<and>
         presence_wire (snd (handleWebSocketUpgrade_presence request c interval now s)) =
           presence_wire s @
             [Send c (PresenceState (getAllPresence s) (map snd (typingIndicators s)) now)] \<and>
         userPresence (snd (handleWebSocketUpgrade_presence request c interval now s)) = userPresence s \<and>
         typingIndicators (snd (handleWebSocketUpgrade_presence request c interval now s)) =
           typingIndicators s"
  using assms
  by (simp add: handleWebSocketUpgrade_presence_def sendCurrentPresenceState_def
        setupHeartbeat_presence_def accepted_def getAllPresence_def Let_def)

theorem snapshot_on_subscribe_witness:
  "upgradeHeader (upgrade_request ''u2'') = Some ''websocket'' \<and>
   presence_wire (snd (handleWebSocketUpgrade_presence (upgrade_request ''u2'') ''c9'' 1 60000
                         stale_typing_scene)) =
     [Send ''c9'' (PresenceState []
        [\<lparr>indicator_userId = ''u1'', indicator_chatId = ''chat1'', indicator_timestamp = 0\<rparr>]
        60000)]"
proof -
  have h: "upgradeHeader (upgrade_request ''u2'') = Some ''websocket''"
    by (simp add: upgrade_request_def)
  have e: "presence_wire stale_typing_scene = []" "getAllPresence stale_typing_scene = []"
    "map snd (typingIndicators stale_typing_scene) =
       [\<lparr>indicator_userId = ''u1'', indicator_chatId = ''chat1'', indicator_timestamp = 0\<rparr>]"
    by (simp_all add: stale_typing_scene_def getAllPresence_def presence_handlers_eval
          presence_eval)
  show ?thesis
    using h e snapshot_on_subscribe[OF h, of "''c9''" 1 60000 stale_typing_scene,
                                    THEN conjunct2, THEN conjunct1]
    by simp
qed

text \<open>
  C8. Users A and B each hold an open connection to the room of chat1, and A sends
  \<open>POST /api/chat/chat1/message\<close> with the body \<open>{content: "hi", type: "text"}\<close>. The claim
  expects both connections to receive one \<open>message\<close> event with the same id and timestamp,
  and the database to receive one store call with that id. The endpoint forwards the body
  under the path \<open>/chat/chat1/message\<close>, which \<open>fetch\<close> of the room answers with
  \<open>404 Not Found\<close>: the endpoint returns that response, neither connection is sent
  anything, and the database is handed no statement. Under the path \<open>/message\<close>, which
  \<open>fetch\<close> dispatches to \<open>handleMessageRequest\<close>, the same body reaches both connections
  as one event.
\<close>

theorem publish_through_endpoint:
  "postChatMessage view publish_context room_draws env now (two_user_room, messages_db) =
     (\<lparr>status_code = 404, body = Text ''Not Found''\<rparr>, two_user_room, messages_db) \<and>
   frames ''c1'' (wire two_user_room) = [] \<and>
   frames ''c2'' (wire two_user_room) = [] \<and>
   received messages_db = [] \<and>
   fst (fetch (view\<lparr>as_message := id\<rparr>) (message_request ''A'') ''id-1'' 3 100 two_user_room) =
     Inr \<lparr>status_code = 200, body = JsonSuccess\<rparr> \<and>
   wire (snd (fetch (view\<lparr>as_message := id\<rparr>) (message_request ''A'') ''id-1'' 3 100
                two_user_room)) =
     [Send ''c1'' (Message ''id-1'' ''hi'' ''text'' ''A'' 100 (JObject [])),
      Send ''c2'' (Message ''id-1'' ''hi'' ''text'' ''A'' 100 (JObject []))]"
proof -
  obtain uuid interval now_room where rd: "room_draws = (uuid, interval, now_room)"
    by (cases room_draws)
  have e: "postChatMessage view publish_context room_draws env now (two_user_room, messages_db) =
             (\<lparr>status_code = 404, body = Text ''Not Found''\<rparr>, two_user_room, messages_db)"
    by (simp add: postChatMessage_def rd publish_context_def message_request_def truthy_def
          fetch_default message_endpoint_path_not_dispatched ok_def)
  have w: "wire two_user_room = []"
    by (simp add: two_user_room_def room_eval)
  have r: "received messages_db = []" by (simp add: messages_db_def)
  have c: "cast id (message_request ''A'') = message_request ''A''"
    by (simp add: cast_def message_request_def)
  have p: "pathname (message_request ''A'') = ''/message''"
    by (simp add: message_request_def)
  have f: "fetch (view\<lparr>as_message := id\<rparr>) (message_request ''A'') ''id-1'' 3 100 two_user_room
             = (Inr (fst (handleMessageRequest (message_request ''A'') ''id-1'' 100 two_user_room)),
                snd (handleMessageRequest (message_request ''A'') ''id-1'' 100 two_user_room))"
    by (simp add: fetch_def room_fetch_def c p split: prod.splits)
  have h1: "fst (handleMessageRequest (message_request ''A'') ''id-1'' 100 two_user_room) =
              \<lparr>status_code = 200, body = JsonSuccess\<rparr>"
    by (simp add: two_user_room_def room_eval)
  have h2: "wire (snd (handleMessageRequest (message_request ''A'') ''id-1'' 100 two_user_room)) =
     [Send ''c1'' (Message ''id-1'' ''hi'' ''text'' ''A'' 100 (JObject [])),
      Send ''c2'' (Message ''id-1'' ''hi'' ''text'' ''A'' 100 (JObject []))]"
    by (simp add: two_user_room_def room_eval)
  show ?thesis
    unfolding f using e w r h1 h2 by simp
qed

text \<open>
  C9, as the claim states it, fails: a stop signal for a user who is not typing is
  broadcast all the same, by the presence object (\<open>typing_stop\<close>) and by the room
  (\<open>typing\<close> with \<open>isTyping: false\<close>).
\<close>

theorem idle_stop_counterexample:
  "typingIndicators idle_presence_scene = [] \<and>
   frames ''c1'' (presence_wire idle_presence_scene) = [PresenceState [] [] 1] \<and>
   frames ''c1'' (presence_wire (snd (handleTypingRequest_presence
                                        (typing_request ''u1'' ''chat1'' False) 5
                                        idle_presence_scene))) =
     [PresenceState [] [] 1, TypingStop ''u1'' ''chat1'' 5] \<and>
   typingUsers idle_room_scene = {} \<and>
   frames ''c1'' (wire (snd (handleTypingRequest (room_typing_request ''B'' False) 5
                               idle_room_scene))) =
     [Typing ''B'' False 5]"
  by (simp add: idle_presence_scene_def idle_room_scene_def room_typing_request_def
        handleTypingRequest_def presence_handlers_eval presence_eval room_eval)

text \<open>
  C9, amended. A set-typing request always broadcasts the event of the flag it carries,
  whether the typing state changes or not: the presence object sends \<open>typing_start\<close> or
  \<open>typing_stop\<close>, the room a \<open>typing\<close> event with the flag, to every connection that reports
  open. On the state: a stop for a user with no indicator in that conversation (in the
  room: a user not in \<open>typingUsers\<close>) leaves the indicators (the set) as they were; a start
  stores the indicator with the new timestamp, and a repeated start keeps the keys of the
  indicator map.
\<close>

theorem typing_always_broadcasts:
  assumes "http_method request = ''POST''"
    and "json request = Some \<lparr>presenceTyping_chatId = chat, presenceTyping_isTyping = flag\<rparr>"
    and "getUserIdFromRequest request = Some u"
    and "http_method room_request = ''POST''"
    and "json room_request = Some \<lparr>typingData_isTyping = flag'\<rparr>"
    and "getUserIdFromRequest room_request = Some u'"
  shows
    "(\<exists>cl. presence_wire (snd (handleTypingRequest_presence request now s)) =
            presence_wire s
              @ deliveries (if flag
                            then TypingStart \<lparr>indicator_userId = u, indicator_chatId = chat,
                                              indicator_timestamp = now\<rparr>
                            else TypingStop u chat now) (presenceSubscribers s)
              @ map Close cl) \<and>
     typingIndicators (snd (handleTypingRequest_presence request now s)) =
       (if flag
        then AList.update (typing_key u chat)
               \<lparr>indicator_userId = u, indicator_chatId = chat, indicator_timestamp = now\<rparr>
               (typingIndicators s)
        else AList.delete (typing_key u chat) (typingIndicators s)) \<and>
     (flag \<and> map_of (typingIndicators s) (typing_key u chat) \<noteq> None \<longrightarrow>
        map fst (typingIndicators (snd (handleTypingRequest_presence request now s))) =
          map fst (typingIndicators s)) \<and>
     (\<not> flag \<and> map_of (typingIndicators s) (typing_key u chat) = None \<longrightarrow>
        typingIndicators (snd (handleTypingRequest_presence request now s)) = typingIndicators s) \<and>
     (\<exists>tail. wire (snd (handleTypingRequest room_request now r)) =
              wire r @ deliveries (Typing u' flag' now) (connections r) @ tail \<and>
            list_all prune_io tail) \<and>
     typingUsers (snd (handleTypingRequest room_request now r)) =
       (if flag' then insert u' (typingUsers r) else typingUsers r - {u'})"
proof -
  let ?ind = "\<lparr>indicator_userId = u, indicator_chatId = chat, indicator_timestamp = now\<rparr>"
  let ?ev = "if flag then TypingStart ?ind else TypingStop u chat now"
  let ?s' = "snd (handleTypingRequest_presence request now s)"
  obtain s2 where s2: "?s' = broadcastPresenceUpdate ?ev s2"
      "presenceSubscribers s2 = presenceSubscribers s" "presence_wire s2 = presence_wire s"
      "typingIndicators s2 =
         (if flag then AList.update (typing_key u chat) ?ind (typingIndicators s)
          else AList.delete (typing_key u chat) (typingIndicators s))"
    using assms(1-3)
    by (cases flag; cases "map_of (userPresence s) u")
       (simp_all add: handleTypingRequest_presence_def Let_def)
  have w: "\<exists>cl. presence_wire ?s' =
             presence_wire s @ deliveries ?ev (presenceSubscribers s) @ map Close cl"
    using broadcast_closes[of ?ev s2] s2 by simp
  have t: "typingIndicators ?s' =
       (if flag then AList.update (typing_key u chat) ?ind (typingIndicators s)
        else AList.delete (typing_key u chat) (typingIndicators s))"
    using s2 by simp
  have keys: "map fst (AList.update k v al) = map fst al" if "map_of al k \<noteq> None"
    for k v and al :: "(string \<times> typing_indicator) list"
    using that by (induction al) auto
  have st: "(flag \<and> map_of (typingIndicators s) (typing_key u chat) \<noteq> None \<longrightarrow>
               map fst (typingIndicators ?s') = map fst (typingIndicators s)) \<and>
            (\<not> flag \<and> map_of (typingIndicators s) (typing_key u chat) = None \<longrightarrow>
               typingIndicators ?s' = typingIndicators s)"
  proof (cases "map_of (typingIndicators s) (typing_key u chat)")
    case None
    then show ?thesis using t by (simp add: delete_absent)
  next
    case (Some y)
    then have "map fst (AList.update (typing_key u chat) ?ind (typingIndicators s)) =
                 map fst (typingIndicators s)"
      using keys by simp
    then show ?thesis using t Some by simp
  qed
  let ?r1 = "if flag' then r\<lparr>typingUsers := insert u' (typingUsers r)\<rparr>
             else r\<lparr>typingUsers := typingUsers r - {u'}\<rparr>"
  have room: "snd (handleTypingRequest room_request now r) =
                broadcastMessage (Typing u' flag' now) now ?r1"
    using assms(4-6) by (simp add: handleTypingRequest_def Let_def)
  have rw: "\<exists>tail. wire (snd (handleTypingRequest room_request now r)) =
              wire r @ deliveries (Typing u' flag' now) (connections r) @ tail \<and>
            list_all prune_io tail"
    using wire_extension(1)[of "Typing u' flag' now" now ?r1] unfolding room by (cases flag') simp_all
  have rt: "typingUsers (snd (handleTypingRequest room_request now r)) =
       (if flag' then insert u' (typingUsers r) else typingUsers r - {u'})"
    unfolding room by (simp add: typingUsers_frame(1))
  from w t st rw rt show ?thesis by simp
qed

theorem typing_always_broadcasts_witness:
  "http_method (typing_request ''u1'' ''chat1'' False) = ''POST'' \<and>
   json (typing_request ''u1'' ''chat1'' False) =
     Some \<lparr>presenceTyping_chatId = ''chat1'', presenceTyping_isTyping = False\<rparr> \<and>
   getUserIdFromRequest (typing_request ''u1'' ''chat1'' False) = Some ''u1'' \<and>
   http_method (room_typing_request ''B'' False) = ''POST'' \<and>
   json (room_typing_request ''B'' False) = Some \<lparr>typingData_isTyping = False\<rparr> \<and>
   getUserIdFromRequest (room_typing_request ''B'' False) = Some ''B'' \<and>
   map_of (typingIndicators idle_presence_scene) (typing_key ''u1'' ''chat1'') = None \<and>
   typingIndicators (snd (handleTypingRequest_presence (typing_request ''u1'' ''chat1'' False) 5
                            idle_presence_scene)) = typingIndicators idle_presence_scene \<and>
   typingUsers (snd (handleTypingRequest (room_typing_request ''B'' False) 5 idle_room_scene)) =
     typingUsers idle_room_scene - {''B''} \<and>
   map_of (typingIndicators stale_typing_scene) (typing_key ''u1'' ''chat1'') \<noteq> None \<and>
   map fst (typingIndicators (snd (handleTypingRequest_presence (typing_request ''u1'' ''chat1'' True) 3
                                     stale_typing_scene))) =
     map fst (typingIndicators stale_typing_scene)"
proof -
  have h: "http_method (typing_request ''u1'' ''chat1'' False) = ''POST''"
      "json (typing_request ''u1'' ''chat1'' False) =
         Some \<lparr>presenceTyping_chatId = ''chat1'', presenceTyping_isTyping = False\<rparr>"
      "getUserIdFromRequest (typing_request ''u1'' ''chat1'' False) = Some ''u1''"
      "http_method (room_typing_request ''B'' False) = ''POST''"
      "json (room_typing_request ''B'' False) = Some \<lparr>typingData_isTyping = False\<rparr>"
      "getUserIdFromRequest (room_typing_request ''B'' False) = Some ''B''"
    by (simp_all add: typing_request_def room_typing_request_def getUserIdFromRequest_def
          truthy_def)
  have idle: "map_of (typingIndicators idle_presence_scene) (typing_key ''u1'' ''chat1'') = None"
    by (simp add: idle_presence_scene_def presence_handlers_eval presence_eval)
  note t = typing_always_broadcasts[OF h, of 5 idle_presence_scene idle_room_scene]
  have a: "typingIndicators (snd (handleTypingRequest_presence (typing_request ''u1'' ''chat1'' False) 5
                            idle_presence_scene)) = typingIndicators idle_presence_scene"
    using t[THEN conjunct2, THEN conjunct2, THEN conjunct2, THEN conjunct1] idle by simp
  have b: "typingUsers (snd (handleTypingRequest (room_typing_request ''B'' False) 5
                               idle_room_scene)) = typingUsers idle_room_scene - {''B''}"
    using t[THEN conjunct2, THEN conjunct2, THEN conjunct2, THEN conjunct2, THEN conjunct2]
    by simp
  have h': "http_method (typing_request ''u1'' ''chat1'' True) = ''POST''"
      "json (typing_request ''u1'' ''chat1'' True) =
         Some \<lparr>presenceTyping_chatId = ''chat1'', presenceTyping_isTyping = True\<rparr>"
      "getUserIdFromRequest (typing_request ''u1'' ''chat1'' True) = Some ''u1''"
    by (simp_all add: typing_request_def getUserIdFromRequest_def truthy_def)
  have busy: "map_of (typingIndicators stale_typing_scene) (typing_key ''u1'' ''chat1'') \<noteq> None"
    by (simp add: stale_typing_scene_def presence_handlers_eval presence_eval)
  note t' = typing_always_broadcasts[OF h' h(4-6), of 3 stale_typing_scene idle_room_scene]
  have c: "map fst (typingIndicators (snd (handleTypingRequest_presence
                      (typing_request ''u1'' ''chat1'' True) 3 stale_typing_scene))) =
             map fst (typingIndicators stale_typing_scene)"
    using t'[THEN conjunct2, THEN conjunct2, THEN conjunct1] busy by simp
  from h idle a b busy c show ?thesis by (intro conjI)
qed

text \<open>
  C10. A status request that names a user without a presence record is answered with
  status 200 and the body \<open>{"status":"offline"}\<close>, and the state is returned as it was.
  (\<open>/status\<close> is the path on which \<open>fetch\<close> dispatches to \<open>handleStatusRequest\<close>.)
\<close>

theorem status_of_unknown_user:
  assumes "getUserIdFromRequest request = Some u" and "getUserPresence u s = None"
  shows "handleStatusRequest request s = (\<lparr>status_code = 200, body = JsonStatusOffline\<rparr>, s) \<and>
         ok (fst (handleStatusRequest request s)) \<and>
         presence_fetch ''/status'' = PresenceStatus"
  using assms
  by (simp add: handleStatusRequest_def getUserPresence_def ok_def presence_fetch_def)

theorem status_of_unknown_user_witness:
  "getUserIdFromRequest (status_request ''ghost'') = Some ''ghost'' \<and>
   getUserPresence ''ghost'' disconnect_scene = None \<and>
   handleStatusRequest (status_request ''ghost'') disconnect_scene =
     (\<lparr>status_code = 200, body = JsonStatusOffline\<rparr>, disconnect_scene)"
proof -
  have h1: "getUserIdFromRequest (status_request ''ghost'') = Some ''ghost''"
    by (simp add: status_request_def getUserIdFromRequest_def truthy_def)
  have h2: "getUserPresence ''ghost'' disconnect_scene = None"
    by (simp add: getUserPresence_def disconnect_scene_def presence_handlers_eval presence_eval)
  show ?thesis
    using h1 h2 status_of_unknown_user[OF h1 h2, THEN conjunct1] by (intro conjI)
qed

end
